theory Spec2Isabelle
  imports Main "HOL-Library.Word" "HOL-Library.Multiset"
begin

section \<open>VinylRigVote: the contract's data\<close>

text \<open>
  A shallow embedding of \<^verbatim>\<open>contracts/VinylRigVote.sol\<close>. Solidity's machine integers are
  words of their width; the increments the contract performs are checked (Solidity 0.8),
  so each one has a branch for the arithmetic panic. A mapping is a total function that
  gives the type's zero value at an unwritten key; a nested mapping is keyed by the tuple
  of its keys. Events are not modelled, and neither are the two mappings
  \<^verbatim>\<open>_decryptedResults\<close> and \<^verbatim>\<open>_decryptedTagCounts\<close>, which no function reads or writes.
\<close>

type_synonym address = "160 word"
type_synonym uint256 = "256 word"
type_synonym uint16 = "16 word"
type_synonym uint8 = "8 word"
type_synonym bytes = "8 word list"

datatype SessionState = Draft | Active | Closed | Revealed

text \<open>
  A fixed-size array of five elements (\<^verbatim>\<open>euint8[5]\<close>, \<^verbatim>\<open>externalEuint8[5]\<close>). Every index
  that reaches \<open>get5\<close> or \<open>set5\<close> is below 5: it is the counter of a loop bounded by 5,
  or it has passed the check of \<^verbatim>\<open>getTagTotal\<close>.
\<close>

datatype 'a array5 = Array5 'a 'a 'a 'a 'a

fun get5 :: "'a array5 \<Rightarrow> nat \<Rightarrow> 'a" where
  "get5 (Array5 a b c d e) i =
     (if i = 0 then a else if i = 1 then b else if i = 2 then c else if i = 3 then d else e)"

fun set5 :: "'a array5 \<Rightarrow> nat \<Rightarrow> 'a \<Rightarrow> 'a array5" where
  "set5 (Array5 a b c d e) i x =
     (if i = 0 then Array5 x b c d e
      else if i = 1 then Array5 a x c d e
      else if i = 2 then Array5 a b x d e
      else if i = 3 then Array5 a b c x e
      else if i = 4 then Array5 a b c d x
      else Array5 a b c d e)"

fun elems5 :: "'a array5 \<Rightarrow> 'a set" where
  "elems5 (Array5 a b c d e) = {a, b, c, d, e}"

subsection \<open>The external cryptosystem\<close>

text \<open>
  Modelled from the spec: the FHE library (\<^verbatim>\<open>@fhevm/solidity/lib/FHE.sol\<close>) is an external
  dependency and not part of the repository. Section 6 of the spec gives its contract:
  ciphertext admission yields an internal handle or fails validation; homomorphic add
  yields a new handle representing the encrypted sum; a capability grant authorizes a
  principal, or the contract itself, on a handle; decryption happens outside the
  contract. A handle is the term that produced it: the zero value of storage that was
  never written, an admitted external ciphertext, or the sum of two handles. The same
  handle type stands for \<^verbatim>\<open>euint16\<close> and \<^verbatim>\<open>euint8\<close>.
\<close>

datatype handle = Uninit | Input nat | HAdd handle handle

type_synonym euint16 = handle
type_synonym euint8 = handle
type_synonym externalEuint16 = nat
type_synonym externalEuint8 = nat

text \<open>
  Modelled from the spec: who may hold a capability on a handle. \<open>This\<close> is the
  contract's own address (\<^verbatim>\<open>FHE.allowThis\<close>), which no caller has.
\<close>

datatype principal = This | Account address

text \<open>
  Modelled from the spec: decryption of a handle, given the cleartext \<open>pt n\<close> that each
  external ciphertext \<open>n\<close> encrypts. Addition is the addition of the ciphertext's width
  (\<^verbatim>\<open>euint16\<close>: 16 bits, \<^verbatim>\<open>euint8\<close>: 8 bits) and wraps around; an uninitialized operand
  counts as zero.
\<close>

fun decrypt :: "(nat \<Rightarrow> 'a::len word) \<Rightarrow> handle \<Rightarrow> 'a word" where
  "decrypt pt Uninit = 0"
| "decrypt pt (Input n) = pt n"
| "decrypt pt (HAdd a b) = decrypt pt a + decrypt pt b"

subsection \<open>Storage\<close>

record Vote =
  rating :: euint16
  tags :: "euint8 array5"
  submitted :: bool

record Session =
  organizer :: address
  title :: string
  description :: string
  deadline :: uint256
  state :: SessionState
  numSetups :: uint8
  equipmentNames :: "string list"
  trackList :: string

text \<open>
  The contract's storage, and with it the access-control list of the cryptosystem, which
  the contract's calls to \<^verbatim>\<open>FHE.allow\<close> and \<^verbatim>\<open>FHE.allowThis\<close> extend and which a reverted
  transaction leaves as it was.
\<close>

record storage =
  sessionCounter :: uint256
  sessions :: "uint256 \<Rightarrow> Session"
  votes :: "uint256 \<times> uint8 \<times> address \<Rightarrow> Vote"
  sessionTotals :: "uint256 \<times> uint8 \<Rightarrow> euint16"
  tagTotals :: "uint256 \<times> uint8 \<Rightarrow> euint8 array5"
  voteCounts :: "uint256 \<times> uint8 \<Rightarrow> uint16"
  decryptionRequested :: "uint256 \<Rightarrow> bool"
  acl :: "(handle \<times> principal) set"

definition default_session :: Session where
  "default_session =
     \<lparr>organizer = 0, title = [], description = [], deadline = 0, state = Draft,
      numSetups = 0, equipmentNames = [], trackList = []\<rparr>"

definition default_vote :: Vote where
  "default_vote =
     \<lparr>rating = Uninit, tags = Array5 Uninit Uninit Uninit Uninit Uninit, submitted = False\<rparr>"

definition init :: storage where
  "init =
     \<lparr>sessionCounter = 0,
      sessions = (\<lambda>_. default_session),
      votes = (\<lambda>_. default_vote),
      sessionTotals = (\<lambda>_. Uninit),
      tagTotals = (\<lambda>_. Array5 Uninit Uninit Uninit Uninit Uninit),
      voteCounts = (\<lambda>_. 0),
      decryptionRequested = (\<lambda>_. False),
      acl = {}\<rparr>"

text \<open>
  What a transaction observes from outside the contract: \<^verbatim>\<open>msg.sender\<close>,
  \<^verbatim>\<open>block.timestamp\<close>, and the verdict of the cryptosystem's admission check on an
  external ciphertext and a proof.
\<close>

record env =
  msg_sender :: address
  block_timestamp :: uint256
  verifies :: "nat \<Rightarrow> bytes \<Rightarrow> bool"

text \<open>
  The failures of the contract, one per \<^verbatim>\<open>require\<close> message:
  \<open>InvalidDeadline\<close> "Deadline must be in future",
  \<open>InvalidSetupCount\<close> "Number of setups must be 2-10",
  \<open>NameCountMismatch\<close> "Equipment names length mismatch",
  \<open>SessionNotFound\<close> "Session does not exist",
  \<open>SessionNotActive\<close> "Session not active",
  \<open>DeadlinePassed\<close> "Voting deadline passed",
  \<open>InvalidSetupIndex\<close> "Invalid setup index",
  \<open>DuplicateVote\<close> "Already voted for this setup",
  \<open>NotOrganizer\<close> "Not session organizer",
  \<open>NotClosed\<close> "Session not closed",
  \<open>MustBeClosedFirst\<close> "Session must be closed first",
  \<open>AlreadyRequested\<close> "Decryption already requested",
  \<open>Forbidden\<close> "Can only view own votes",
  \<open>NotFound\<close> "No vote found",
  \<open>NotRevealed\<close> "Equipment not yet revealed",
  \<open>InvalidTagIndex\<close> "Invalid tag index";
  \<open>InvalidProof\<close> is the revert of a failed ciphertext admission and \<open>Panic\<close> the
  overflow of a checked increment.
\<close>

datatype error =
    InvalidDeadline | InvalidSetupCount | NameCountMismatch
  | SessionNotFound | SessionNotActive | DeadlinePassed | InvalidSetupIndex | DuplicateVote
  | NotOrganizer | NotClosed | MustBeClosedFirst | AlreadyRequested
  | Forbidden | NotFound | NotRevealed | InvalidTagIndex
  | InvalidProof | Panic

subsection \<open>The library calls\<close>

text \<open>Modelled from the spec: ciphertext admission (\<^verbatim>\<open>FHE.fromExternal\<close>).\<close>

definition FHE_fromExternal :: "env \<Rightarrow> nat \<Rightarrow> bytes \<Rightarrow> error + handle" where
  "FHE_fromExternal e input inputProof =
     (if verifies e input inputProof then Inr (Input input) else Inl InvalidProof)"

text \<open>Modelled from the spec: homomorphic addition (\<^verbatim>\<open>FHE.add\<close>).\<close>

definition FHE_add :: "handle \<Rightarrow> handle \<Rightarrow> handle" where
  "FHE_add a b = HAdd a b"

text \<open>
  Modelled from the spec: capability grants (\<^verbatim>\<open>FHE.allow\<close>, \<^verbatim>\<open>FHE.allowThis\<close>). As in
  the spec, a grant or an addition does not fail (capabilities are checked by the
  cryptosystem at decryption), and grants are never withdrawn.
\<close>

definition FHE_allow :: "handle \<Rightarrow> principal \<Rightarrow> storage \<Rightarrow> storage" where
  "FHE_allow h p s = s\<lparr>acl := insert (h, p) (acl s)\<rparr>"

definition FHE_allowThis :: "handle \<Rightarrow> storage \<Rightarrow> storage" where
  "FHE_allowThis h s = FHE_allow h This s"

section \<open>The contract's functions\<close>

subsection \<open>createSession\<close>

definition createSession ::
  "env \<Rightarrow> string \<Rightarrow> string \<Rightarrow> uint256 \<Rightarrow> uint8 \<Rightarrow> string list \<Rightarrow> string \<Rightarrow> storage
   \<Rightarrow> error + (uint256 \<times> storage)" where
  "createSession e ttl descr dl n names tracks s =
     (if \<not> (dl > block_timestamp e) then Inl InvalidDeadline
      else if \<not> (n \<ge> 2 \<and> n \<le> 10) then Inl InvalidSetupCount
      else if \<not> (length names = unat n) then Inl NameCountMismatch
      else if sessionCounter s + 1 = 0 then Inl Panic
      else
        let sessionId = sessionCounter s in
        Inr (sessionId,
             s\<lparr>sessionCounter := sessionCounter s + 1,
               sessions := (sessions s)(sessionId :=
                 \<lparr>organizer = msg_sender e, title = ttl, description = descr,
                  deadline = dl, state = Active, numSetups = n,
                  equipmentNames = names, trackList = tracks\<rparr>)\<rparr>))"

subsection \<open>submitVote\<close>

text \<open>The loop that admits the five tag ciphertexts; the first failure reverts.\<close>

definition fromExternal_tags ::
  "env \<Rightarrow> externalEuint8 array5 \<Rightarrow> bytes \<Rightarrow> error + euint8 array5" where
  "fromExternal_tags e inputTags inputProof =
     fold (\<lambda>i acc. case acc of
                      Inl err \<Rightarrow> Inl err
                    | Inr encryptedTags \<Rightarrow>
                        (case FHE_fromExternal e (get5 inputTags i) inputProof of
                           Inl err \<Rightarrow> Inl err
                         | Inr h \<Rightarrow> Inr (set5 encryptedTags i h)))
          [0..<5] (Inr (Array5 Uninit Uninit Uninit Uninit Uninit))"

text \<open>The two aggregation branches: first-value assignment, and homomorphic addition.\<close>

definition assign_totals :: "uint256 \<times> uint8 \<Rightarrow> euint16 \<Rightarrow> euint8 array5 \<Rightarrow> storage \<Rightarrow> storage" where
  "assign_totals k encryptedRating encryptedTags s =
     fold (\<lambda>i s. s\<lparr>tagTotals := (tagTotals s)(k := set5 (tagTotals s k) i (get5 encryptedTags i))\<rparr>)
          [0..<5]
          (s\<lparr>sessionTotals := (sessionTotals s)(k := encryptedRating)\<rparr>)"

definition add_totals :: "uint256 \<times> uint8 \<Rightarrow> euint16 \<Rightarrow> euint8 array5 \<Rightarrow> storage \<Rightarrow> storage" where
  "add_totals k encryptedRating encryptedTags s =
     fold (\<lambda>i s. s\<lparr>tagTotals := (tagTotals s)(k :=
                      set5 (tagTotals s k) i (FHE_add (get5 (tagTotals s k) i) (get5 encryptedTags i)))\<rparr>)
          [0..<5]
          (s\<lparr>sessionTotals := (sessionTotals s)(k := FHE_add (sessionTotals s k) encryptedRating)\<rparr>)"

text \<open>The grants on the ballot's own ciphertexts, and on the running totals.\<close>

definition allow_vote :: "address \<Rightarrow> euint16 \<Rightarrow> euint8 array5 \<Rightarrow> storage \<Rightarrow> storage" where
  "allow_vote voter encryptedRating encryptedTags s =
     fold (\<lambda>i s. FHE_allowThis (get5 encryptedTags i)
                    (FHE_allow (get5 encryptedTags i) (Account voter) s))
          [0..<5]
          (FHE_allowThis encryptedRating (FHE_allow encryptedRating (Account voter) s))"

definition allowThis_totals :: "uint256 \<times> uint8 \<Rightarrow> storage \<Rightarrow> storage" where
  "allowThis_totals k s =
     fold (\<lambda>i s. FHE_allowThis (get5 (tagTotals s k) i) s)
          [0..<5]
          (FHE_allowThis (sessionTotals s k) s)"

definition submitVote ::
  "env \<Rightarrow> uint256 \<Rightarrow> uint8 \<Rightarrow> externalEuint16 \<Rightarrow> externalEuint8 array5 \<Rightarrow> bytes \<Rightarrow> storage
   \<Rightarrow> error + storage" where
  "submitVote e sessionId setupIndex inputRating inputTags inputProof s =
     (if \<not> (organizer (sessions s sessionId) \<noteq> 0) then Inl SessionNotFound
      else if \<not> (state (sessions s sessionId) = Active) then Inl SessionNotActive
      else if \<not> (block_timestamp e \<le> deadline (sessions s sessionId)) then Inl DeadlinePassed
      else if \<not> (setupIndex < numSetups (sessions s sessionId)) then Inl InvalidSetupIndex
      else if submitted (votes s (sessionId, setupIndex, msg_sender e)) then Inl DuplicateVote
      else
        case FHE_fromExternal e inputRating inputProof of
          Inl err \<Rightarrow> Inl err
        | Inr encryptedRating \<Rightarrow>
           (case fromExternal_tags e inputTags inputProof of
              Inl err \<Rightarrow> Inl err
            | Inr encryptedTags \<Rightarrow>
               (let k = (sessionId, setupIndex);
                    s1 = s\<lparr>votes := (votes s)((sessionId, setupIndex, msg_sender e) :=
                             \<lparr>rating = encryptedRating, tags = encryptedTags, submitted = True\<rparr>)\<rparr>;
                    s2 = (if voteCounts s1 k = 0
                          then assign_totals k encryptedRating encryptedTags s1
                          else add_totals k encryptedRating encryptedTags s1)
                in if voteCounts s2 k + 1 = 0 then Inl Panic
                   else
                     let s3 = s2\<lparr>voteCounts := (voteCounts s2)(k := voteCounts s2 k + 1)\<rparr>;
                         s4 = allow_vote (msg_sender e) encryptedRating encryptedTags s3
                     in Inr (allowThis_totals k s4))))"

subsection \<open>closeSession, computeRankings, requestOrganizerDecryption, revealEquipment\<close>

definition closeSession :: "env \<Rightarrow> uint256 \<Rightarrow> storage \<Rightarrow> error + storage" where
  "closeSession e sessionId s =
     (if \<not> (organizer (sessions s sessionId) \<noteq> 0) then Inl SessionNotFound
      else if \<not> (organizer (sessions s sessionId) = msg_sender e) then Inl NotOrganizer
      else if \<not> (state (sessions s sessionId) = Active) then Inl SessionNotActive
      else Inr (s\<lparr>sessions := (sessions s)(sessionId := (sessions s sessionId)\<lparr>state := Closed\<rparr>)\<rparr>))"

definition computeRankings :: "env \<Rightarrow> uint256 \<Rightarrow> storage \<Rightarrow> error + storage" where
  "computeRankings e sessionId s =
     (if \<not> (organizer (sessions s sessionId) \<noteq> 0) then Inl SessionNotFound
      else if \<not> (state (sessions s sessionId) = Closed) then Inl NotClosed
      else Inr s)"

text \<open>The grants of one setup: the rating total, then the five tag totals.\<close>

definition allow_totals :: "address \<Rightarrow> uint256 \<times> uint8 \<Rightarrow> storage \<Rightarrow> storage" where
  "allow_totals who k s =
     fold (\<lambda>j s. FHE_allowThis (get5 (tagTotals s k) j)
                    (FHE_allow (get5 (tagTotals s k) j) (Account who) s))
          [0..<5]
          (FHE_allowThis (sessionTotals s k) (FHE_allow (sessionTotals s k) (Account who) s))"

definition requestOrganizerDecryption :: "env \<Rightarrow> uint256 \<Rightarrow> storage \<Rightarrow> error + storage" where
  "requestOrganizerDecryption e sessionId s =
     (if \<not> (organizer (sessions s sessionId) \<noteq> 0) then Inl SessionNotFound
      else if \<not> (organizer (sessions s sessionId) = msg_sender e) then Inl NotOrganizer
      else if \<not> (state (sessions s sessionId) = Closed) then Inl NotClosed
      else if decryptionRequested s sessionId then Inl AlreadyRequested
      else
        let s1 = fold (\<lambda>i s. if voteCounts s (sessionId, of_nat i) > 0
                              then allow_totals (msg_sender e) (sessionId, of_nat i) s
                              else s)
                      [0..<unat (numSetups (sessions s sessionId))] s
        in Inr (s1\<lparr>decryptionRequested := (decryptionRequested s1)(sessionId := True)\<rparr>))"

definition revealEquipment :: "env \<Rightarrow> uint256 \<Rightarrow> storage \<Rightarrow> error + storage" where
  "revealEquipment e sessionId s =
     (if \<not> (organizer (sessions s sessionId) \<noteq> 0) then Inl SessionNotFound
      else if \<not> (organizer (sessions s sessionId) = msg_sender e) then Inl NotOrganizer
      else if \<not> (state (sessions s sessionId) = Closed) then Inl MustBeClosedFirst
      else Inr (s\<lparr>sessions := (sessions s)(sessionId := (sessions s sessionId)\<lparr>state := Revealed\<rparr>)\<rparr>))"

subsection \<open>The views\<close>

definition getUserVote ::
  "env \<Rightarrow> uint256 \<Rightarrow> uint8 \<Rightarrow> address \<Rightarrow> storage \<Rightarrow> error + (euint16 \<times> euint8 array5)" where
  "getUserVote e sessionId setupIndex userAddress s =
     (if \<not> (organizer (sessions s sessionId) \<noteq> 0) then Inl SessionNotFound
      else if \<not> (msg_sender e = userAddress) then Inl Forbidden
      else if \<not> submitted (votes s (sessionId, setupIndex, userAddress)) then Inl NotFound
      else Inr (rating (votes s (sessionId, setupIndex, userAddress)),
                tags (votes s (sessionId, setupIndex, userAddress))))"

definition getSession ::
  "uint256 \<Rightarrow> storage
   \<Rightarrow> error + (address \<times> string \<times> string \<times> uint256 \<times> SessionState \<times> uint8 \<times> string)" where
  "getSession sessionId s =
     (if \<not> (organizer (sessions s sessionId) \<noteq> 0) then Inl SessionNotFound
      else let session = sessions s sessionId
           in Inr (organizer session, title session, description session, deadline session,
                   state session, numSetups session, trackList session))"

definition getEquipmentNames :: "uint256 \<Rightarrow> storage \<Rightarrow> error + string list" where
  "getEquipmentNames sessionId s =
     (if \<not> (organizer (sessions s sessionId) \<noteq> 0) then Inl SessionNotFound
      else if \<not> (state (sessions s sessionId) = Revealed) then Inl NotRevealed
      else Inr (equipmentNames (sessions s sessionId)))"

definition getVoteCount :: "uint256 \<Rightarrow> uint8 \<Rightarrow> storage \<Rightarrow> error + uint16" where
  "getVoteCount sessionId setupIndex s =
     (if \<not> (organizer (sessions s sessionId) \<noteq> 0) then Inl SessionNotFound
      else Inr (voteCounts s (sessionId, setupIndex)))"

definition getSessionCount :: "storage \<Rightarrow> uint256" where
  "getSessionCount s = sessionCounter s"

definition hasVoted :: "uint256 \<Rightarrow> uint8 \<Rightarrow> address \<Rightarrow> storage \<Rightarrow> error + bool" where
  "hasVoted sessionId setupIndex userAddress s =
     Inr (submitted (votes s (sessionId, setupIndex, userAddress)))"

definition isOrganizer :: "uint256 \<Rightarrow> address \<Rightarrow> storage \<Rightarrow> error + bool" where
  "isOrganizer sessionId addr s =
     (if \<not> (organizer (sessions s sessionId) \<noteq> 0) then Inl SessionNotFound
      else Inr (organizer (sessions s sessionId) = addr))"

fun state_index :: "SessionState \<Rightarrow> uint8" where
  "state_index Draft = 0"
| "state_index Active = 1"
| "state_index Closed = 2"
| "state_index Revealed = 3"

definition getSessionState :: "uint256 \<Rightarrow> storage \<Rightarrow> error + uint8" where
  "getSessionState sessionId s =
     (if \<not> (organizer (sessions s sessionId) \<noteq> 0) then Inl SessionNotFound
      else Inr (state_index (state (sessions s sessionId))))"

definition isDecryptionRequested :: "uint256 \<Rightarrow> storage \<Rightarrow> error + bool" where
  "isDecryptionRequested sessionId s =
     (if \<not> (organizer (sessions s sessionId) \<noteq> 0) then Inl SessionNotFound
      else Inr (decryptionRequested s sessionId))"

definition getSessionTotal :: "uint256 \<Rightarrow> uint8 \<Rightarrow> storage \<Rightarrow> error + euint16" where
  "getSessionTotal sessionId setupIndex s =
     (if \<not> (organizer (sessions s sessionId) \<noteq> 0) then Inl SessionNotFound
      else if \<not> (setupIndex < numSetups (sessions s sessionId)) then Inl InvalidSetupIndex
      else Inr (sessionTotals s (sessionId, setupIndex)))"

definition getTagTotal :: "uint256 \<Rightarrow> uint8 \<Rightarrow> uint8 \<Rightarrow> storage \<Rightarrow> error + euint8" where
  "getTagTotal sessionId setupIndex tagIndex s =
     (if \<not> (organizer (sessions s sessionId) \<noteq> 0) then Inl SessionNotFound
      else if \<not> (setupIndex < numSetups (sessions s sessionId)) then Inl InvalidSetupIndex
      else if \<not> (tagIndex < 5) then Inl InvalidTagIndex
      else Inr (get5 (tagTotals s (sessionId, setupIndex)) (unat tagIndex)))"

section \<open>Transactions\<close>

text \<open>
  The state-changing entry points as calls. A transaction is a call in an environment; a
  call that reverts leaves the storage as it was. \<open>run\<close> applies a list of transactions,
  the first one first.
\<close>

datatype call =
    CreateSession string string uint256 uint8 "string list" string
  | SubmitVote uint256 uint8 externalEuint16 "externalEuint8 array5" bytes
  | CloseSession uint256
  | ComputeRankings uint256
  | RequestOrganizerDecryption uint256
  | RevealEquipment uint256

fun exec :: "env \<Rightarrow> call \<Rightarrow> storage \<Rightarrow> error + storage" where
  "exec e (CreateSession ttl descr dl n names tracks) s =
     (case createSession e ttl descr dl n names tracks s of
        Inl err \<Rightarrow> Inl err | Inr (sessionId, s') \<Rightarrow> Inr s')"
| "exec e (SubmitVote sessionId setupIndex inputRating inputTags inputProof) s =
     submitVote e sessionId setupIndex inputRating inputTags inputProof s"
| "exec e (CloseSession sessionId) s = closeSession e sessionId s"
| "exec e (ComputeRankings sessionId) s = computeRankings e sessionId s"
| "exec e (RequestOrganizerDecryption sessionId) s = requestOrganizerDecryption e sessionId s"
| "exec e (RevealEquipment sessionId) s = revealEquipment e sessionId s"

definition apply_tx :: "env \<times> call \<Rightarrow> storage \<Rightarrow> storage" where
  "apply_tx t s = (case exec (fst t) (snd t) s of Inl err \<Rightarrow> s | Inr s' \<Rightarrow> s')"

fun run :: "(env \<times> call) list \<Rightarrow> storage \<Rightarrow> storage" where
  "run [] s = s"
| "run (t # ts) s = run ts (apply_tx t s)"

section \<open>Vocabulary of the properties\<close>

text \<open>
  Element-wise operations on the five-element arrays, for stating what the loops of
  \<open>submitVote\<close> compute.
\<close>

fun map5 :: "('a \<Rightarrow> 'b) \<Rightarrow> 'a array5 \<Rightarrow> 'b array5" where
  "map5 f (Array5 a b c d e) = Array5 (f a) (f b) (f c) (f d) (f e)"

fun zip5 :: "('a \<Rightarrow> 'b \<Rightarrow> 'c) \<Rightarrow> 'a array5 \<Rightarrow> 'b array5 \<Rightarrow> 'c array5" where
  "zip5 f (Array5 a b c d e) (Array5 a' b' c' d' e') = Array5 (f a a') (f b b') (f c c') (f d d') (f e e')"

text \<open>
  The six ciphertext handles of a ballot, and the six running totals of a setup.
\<close>

definition vote_handles :: "Vote \<Rightarrow> handle set" where
  "vote_handles v = insert (rating v) (elems5 (tags v))"

definition agg_handles :: "storage \<Rightarrow> uint256 \<times> uint8 \<Rightarrow> handle set" where
  "agg_handles s k = insert (sessionTotals s k) (elems5 (tagTotals s k))"

text \<open>
  The ballots folded into a setup by a history: the payloads of the \<open>submitVote\<close> calls
  for that session and setup that succeeded, in the order of the transactions.
\<close>

fun submitted_ballot ::
  "uint256 \<times> uint8 \<Rightarrow> env \<Rightarrow> call \<Rightarrow> storage \<Rightarrow> (externalEuint16 \<times> externalEuint8 array5) list" where
  "submitted_ballot k e (SubmitVote sessionId setupIndex inputRating inputTags inputProof) s =
     (if (sessionId, setupIndex) = k
      then (case submitVote e sessionId setupIndex inputRating inputTags inputProof s of
              Inl err \<Rightarrow> [] | Inr s' \<Rightarrow> [(inputRating, inputTags)])
      else [])"
| "submitted_ballot k e c s = []"

fun folded ::
  "uint256 \<times> uint8 \<Rightarrow> (env \<times> call) list \<Rightarrow> storage \<Rightarrow> (externalEuint16 \<times> externalEuint8 array5) list" where
  "folded k [] s = []"
| "folded k (t # ts) s = submitted_ballot k (fst t) (snd t) s @ folded k ts (apply_tx t s)"

text \<open>
  The arithmetic sums of the cleartexts of a list of ballots: of the ratings, and of the
  tag at one position.
\<close>

definition rating_sum :: "(nat \<Rightarrow> 16 word) \<Rightarrow> (externalEuint16 \<times> externalEuint8 array5) list \<Rightarrow> nat" where
  "rating_sum pt bs = (\<Sum>b\<leftarrow>bs. unat (pt (fst b)))"

definition tag_sum ::
  "(nat \<Rightarrow> 8 word) \<Rightarrow> nat \<Rightarrow> (externalEuint16 \<times> externalEuint8 array5) list \<Rightarrow> nat" where
  "tag_sum pt j bs = (\<Sum>b\<leftarrow>bs. unat (pt (get5 (snd b) j)))"

text \<open>
  The order of the session states.
\<close>

fun rank :: "SessionState \<Rightarrow> nat" where
  "rank Draft = 0"
| "rank Active = 1"
| "rank Closed = 2"
| "rank Revealed = 3"

subsection \<open>Invariants of the reachable states\<close>

text \<open>
  The kind of a handle, and the kind the totals of a setup have after a number of votes:
  never written, a ballot's own ciphertext after the first vote, a sum from the second
  vote on.
\<close>

fun shape :: "handle \<Rightarrow> nat" where
  "shape Uninit = 0"
| "shape (Input n) = 1"
| "shape (HAdd a b) = 2"

definition votes_shape :: "uint16 \<Rightarrow> nat" where
  "votes_shape c = (if c = 0 then 0 else if c = 1 then 1 else 2)"

text \<open>
  \<open>inv_fresh\<close>: nothing is stored at or above the session counter.
  \<open>inv_totals\<close>: the totals of a setup have the kind its vote count gives.
  \<open>inv_ballots\<close>: the handles of a submitted ballot are admitted external ciphertexts.
  \<open>inv_requested\<close>: decryption is requested only for closed or revealed sessions.
  \<open>may_hold\<close>, \<open>inv_acl\<close>: who holds a capability on a handle: the contract, a voter
  whose ballot stores the handle, or the organizer of a session with a decryption
  request, for the totals of a setup that has votes.
\<close>

definition inv_fresh :: "storage \<Rightarrow> bool" where
  "inv_fresh s \<longleftrightarrow>
     (\<forall>sid. sessionCounter s \<le> sid \<longrightarrow> sessions s sid = default_session \<and> \<not> decryptionRequested s sid)"

definition inv_totals :: "storage \<Rightarrow> bool" where
  "inv_totals s \<longleftrightarrow> (\<forall>k h. h \<in> agg_handles s k \<longrightarrow> shape h = votes_shape (voteCounts s k))"

definition inv_ballots :: "storage \<Rightarrow> bool" where
  "inv_ballots s \<longleftrightarrow>
     (\<forall>key h. submitted (votes s key) \<longrightarrow> h \<in> vote_handles (votes s key) \<longrightarrow> shape h = 1)"

definition inv_requested :: "storage \<Rightarrow> bool" where
  "inv_requested s \<longleftrightarrow>
     (\<forall>sid. decryptionRequested s sid \<longrightarrow>
        state (sessions s sid) = Closed \<or> state (sessions s sid) = Revealed)"

definition may_hold :: "storage \<Rightarrow> handle \<Rightarrow> principal \<Rightarrow> bool" where
  "may_hold s h p \<longleftrightarrow>
        p = This
        \<or> (\<exists>sid idx v. p = Account v \<and> submitted (votes s (sid, idx, v)) \<and>
                       h \<in> vote_handles (votes s (sid, idx, v)))
        \<or> (\<exists>sid idx. p = Account (organizer (sessions s sid)) \<and> decryptionRequested s sid \<and>
                     voteCounts s (sid, idx) \<noteq> 0 \<and> h \<in> agg_handles s (sid, idx))"

definition inv_acl :: "storage \<Rightarrow> bool" where
  "inv_acl s \<longleftrightarrow> (\<forall>h p. (h, p) \<in> acl s \<longrightarrow> may_hold s h p)"

definition inv :: "storage \<Rightarrow> bool" where
  "inv s \<longleftrightarrow> inv_fresh s \<and> inv_totals s \<and> inv_ballots s \<and> inv_requested s \<and> inv_acl s"

text \<open>
  What every later state keeps of an earlier one: the counter does not decrease, the
  sessions below it keep organizer, deadline, setup count and names and do not move to
  an earlier state, submitted ballots and decryption requests stay, grants are not
  withdrawn.
\<close>

definition later :: "storage \<Rightarrow> storage \<Rightarrow> bool" where
  "later s s' \<longleftrightarrow>
     sessionCounter s \<le> sessionCounter s'
     \<and> (\<forall>sid. sid < sessionCounter s \<longrightarrow>
           organizer (sessions s' sid) = organizer (sessions s sid) \<and>
           deadline (sessions s' sid) = deadline (sessions s sid) \<and>
           numSetups (sessions s' sid) = numSetups (sessions s sid) \<and>
           equipmentNames (sessions s' sid) = equipmentNames (sessions s sid) \<and>
           rank (state (sessions s sid)) \<le> rank (state (sessions s' sid)))
     \<and> (\<forall>key. submitted (votes s key) \<longrightarrow> votes s' key = votes s key)
     \<and> (\<forall>sid. decryptionRequested s sid \<longrightarrow> decryptionRequested s' sid)
     \<and> acl s \<subseteq> acl s'"

subsection \<open>Example transactions\<close>

text \<open>
  An organizer (address 1) creates a session of two setups with deadline 1000; voters
  (addresses 2 and 3) submit ballots for setup 0; the organizer closes the session,
  requests decryption and reveals the equipment. In the examples the cryptosystem admits
  every ciphertext.
\<close>

definition tx_env :: "address \<Rightarrow> uint256 \<Rightarrow> env" where
  "tx_env a now = \<lparr>msg_sender = a, block_timestamp = now, verifies = (\<lambda>_ _. True)\<rparr>"

definition ex_create :: call where
  "ex_create = CreateSession ''Blind test'' ''Two setups'' 1000 2 [''A'', ''B''] ''''"

definition ex_open :: "(env \<times> call) list" where
  "ex_open = [(tx_env 1 10, ex_create)]"

definition ex_vote1 :: "env \<times> call" where
  "ex_vote1 = (tx_env 2 20, SubmitVote 0 0 0 (Array5 1 2 3 4 5) [])"

definition ex_vote2 :: "env \<times> call" where
  "ex_vote2 = (tx_env 3 30, SubmitVote 0 0 6 (Array5 7 8 9 10 11) [])"

definition ex_close :: "env \<times> call" where
  "ex_close = (tx_env 1 40, CloseSession 0)"

definition ex_request :: "env \<times> call" where
  "ex_request = (tx_env 1 50, RequestOrganizerDecryption 0)"

definition ex_reveal :: "env \<times> call" where
  "ex_reveal = (tx_env 1 60, RevealEquipment 0)"

definition ex_closed :: "(env \<times> call) list" where
  "ex_closed = ex_open @ [ex_close]"

definition ex_revealed :: "(env \<times> call) list" where
  "ex_revealed = ex_closed @ [ex_reveal]"

definition ex_voted :: "(env \<times> call) list" where
  "ex_voted = ex_open @ [ex_vote1]"

definition ex_voted_closed :: "(env \<times> call) list" where
  "ex_voted_closed = ex_voted @ [ex_close]"

definition ex_voted_requested :: "(env \<times> call) list" where
  "ex_voted_requested = ex_voted_closed @ [ex_request]"

definition ex_two :: "(env \<times> call) list" where
  "ex_two = ex_open @ [ex_vote1, ex_vote2]"

definition ex_two_swapped :: "(env \<times> call) list" where
  "ex_two_swapped =
     ex_open @ [(tx_env 3 20, SubmitVote 0 0 6 (Array5 7 8 9 10 11) []),
                (tx_env 2 30, SubmitVote 0 0 0 (Array5 1 2 3 4 5) [])]"

text \<open>
  Cleartexts for the examples: ratings 8 and 6 with tags 1,0,1,1,0 and 0,1,1,1,0; and
  ratings 65535 and 1.
\<close>

definition ex_pt16 :: "nat \<Rightarrow> 16 word" where
  "ex_pt16 n = (if n = 0 then 8 else 6)"

definition ex_pt8 :: "nat \<Rightarrow> 8 word" where
  "ex_pt8 n = (if n \<in> {1, 3, 4, 8, 9, 10} then 1 else 0)"

definition ex_pt16_large :: "nat \<Rightarrow> 16 word" where
  "ex_pt16_large n = (if n = 0 then 65535 else 1)"

text \<open>
  A crowd: voter \<open>i\<close> (address \<open>i + 2\<close>) submits a ballot for setup 0 whose
  ciphertexts are numbered from \<open>6 * i\<close>; every tag encrypts 1.
\<close>

definition ex_ballot :: "nat \<Rightarrow> env \<times> call" where
  "ex_ballot i =
     (tx_env (of_nat (i + 2)) 20,
      SubmitVote 0 0 (6 * i) (Array5 (6 * i + 1) (6 * i + 2) (6 * i + 3) (6 * i + 4) (6 * i + 5)) [])"

definition ex_crowd :: "nat \<Rightarrow> (env \<times> call) list" where
  "ex_crowd n = ex_open @ map ex_ballot [0..<n]"

definition ex_pt8_ones :: "nat \<Rightarrow> 8 word" where
  "ex_pt8_ones n = 1"

section \<open>Facts about the functions\<close>

subsection \<open>The loops\<close>

lemma upt5: "[0..<5] = [0, 1, 2, 3, 4]"
  by (simp add: upt_rec)

lemma fromExternal_tags_eq:
  "fromExternal_tags e t p =
     (if (\<forall>x \<in> elems5 t. verifies e x p) then Inr (map5 Input t) else Inl InvalidProof)"
  by (cases t) (simp add: fromExternal_tags_def FHE_fromExternal_def upt5)

lemma assign_totals_eq:
  "assign_totals k r t s =
     s\<lparr>sessionTotals := (sessionTotals s)(k := r), tagTotals := (tagTotals s)(k := t)\<rparr>"
  by (cases t; cases "tagTotals s k") (simp add: assign_totals_def upt5)

lemma add_totals_eq:
  "add_totals k r t s =
     s\<lparr>sessionTotals := (sessionTotals s)(k := HAdd (sessionTotals s k) r),
       tagTotals := (tagTotals s)(k := zip5 HAdd (tagTotals s k) t)\<rparr>"
  by (cases t; cases "tagTotals s k") (simp add: add_totals_def FHE_add_def upt5)

lemma acl_cong: "A = B \<Longrightarrow> s\<lparr>acl := A\<rparr> = s\<lparr>acl := B\<rparr>"
  by simp

lemma allow_vote_eq:
  "allow_vote v r t s = s\<lparr>acl := acl s \<union> insert r (elems5 t) \<times> {Account v, This}\<rparr>"
  apply (cases t)
  apply (simp add: allow_vote_def FHE_allow_def FHE_allowThis_def upt5)
  apply (rule acl_cong)
  apply auto
  done

lemma allowThis_totals_eq:
  "allowThis_totals k s = s\<lparr>acl := acl s \<union> agg_handles s k \<times> {This}\<rparr>"
  apply (cases "tagTotals s k")
  apply (simp add: allowThis_totals_def agg_handles_def FHE_allow_def FHE_allowThis_def upt5)
  apply (rule acl_cong)
  apply auto
  done

lemma allow_totals_eq:
  "allow_totals who k s = s\<lparr>acl := acl s \<union> agg_handles s k \<times> {Account who, This}\<rparr>"
  apply (cases "tagTotals s k")
  apply (simp add: allow_totals_def agg_handles_def FHE_allow_def FHE_allowThis_def upt5)
  apply (rule acl_cong)
  apply auto
  done

subsection \<open>When a call succeeds, and what it writes\<close>

lemma submitVote_Inr_iff:
  "submitVote e sid idx r t p s = Inr s' \<longleftrightarrow>
     organizer (sessions s sid) \<noteq> 0 \<and> state (sessions s sid) = Active \<and>
     block_timestamp e \<le> deadline (sessions s sid) \<and> idx < numSetups (sessions s sid) \<and>
     \<not> submitted (votes s (sid, idx, msg_sender e)) \<and>
     verifies e r p \<and> (\<forall>x \<in> elems5 t. verifies e x p) \<and> voteCounts s (sid, idx) + 1 \<noteq> 0 \<and>
     s' = s\<lparr>votes := (votes s)((sid, idx, msg_sender e) :=
                 \<lparr>rating = Input r, tags = map5 Input t, submitted = True\<rparr>),
             sessionTotals := (sessionTotals s)((sid, idx) :=
                 (if voteCounts s (sid, idx) = 0 then Input r
                  else HAdd (sessionTotals s (sid, idx)) (Input r))),
             tagTotals := (tagTotals s)((sid, idx) :=
                 (if voteCounts s (sid, idx) = 0 then map5 Input t
                  else zip5 HAdd (tagTotals s (sid, idx)) (map5 Input t))),
             voteCounts := (voteCounts s)((sid, idx) := voteCounts s (sid, idx) + 1),
             acl := acl s \<union> insert (Input r) (elems5 (map5 Input t)) \<times> {Account (msg_sender e), This}
                    \<union> insert (if voteCounts s (sid, idx) = 0 then Input r
                               else HAdd (sessionTotals s (sid, idx)) (Input r))
                        (elems5 (if voteCounts s (sid, idx) = 0 then map5 Input t
                                 else zip5 HAdd (tagTotals s (sid, idx)) (map5 Input t))) \<times> {This}\<rparr>"
  by (auto simp add: submitVote_def FHE_fromExternal_def fromExternal_tags_eq assign_totals_eq
        add_totals_eq allow_vote_eq allowThis_totals_eq agg_handles_def Let_def)

lemma createSession_Inr_iff:
  "createSession e ttl descr dl n names tracks s = Inr (sid, s') \<longleftrightarrow>
     block_timestamp e < dl \<and> 2 \<le> n \<and> n \<le> 10 \<and> length names = unat n \<and>
     sessionCounter s + 1 \<noteq> 0 \<and> sid = sessionCounter s \<and>
     s' = s\<lparr>sessionCounter := sessionCounter s + 1,
             sessions := (sessions s)(sessionCounter s :=
               \<lparr>organizer = msg_sender e, title = ttl, description = descr,
                deadline = dl, state = Active, numSetups = n,
                equipmentNames = names, trackList = tracks\<rparr>)\<rparr>"
  by (auto simp add: createSession_def Let_def)

lemma request_loop_eq:
  "fold (\<lambda>i s. if voteCounts s (sid, of_nat i) > 0 then allow_totals who (sid, of_nat i) s else s)
        [0..<n] s =
   s\<lparr>acl := acl s \<union> {(h, p). \<exists>i<n. voteCounts s (sid, of_nat i) \<noteq> 0 \<and>
                                  h \<in> agg_handles s (sid, of_nat i) \<and> (p = Account who \<or> p = This)}\<rparr>"
  (is "fold ?f [0..<n] s = ?R n")
proof (induction n)
  case 0
  then show ?case by simp
next
  case (Suc n)
  have "fold ?f [0..<Suc n] s = ?f n (fold ?f [0..<n] s)"
    by simp
  also have "\<dots> = ?f n (?R n)"
    by (simp only: Suc)
  also have "\<dots> = ?R (Suc n)"
    apply (simp add: allow_totals_eq agg_handles_def word_greater_zero_iff)
    apply (intro conjI impI acl_cong)
     apply (auto simp add: less_Suc_eq)
    done
  finally show ?case .
qed

lemma requestOrganizerDecryption_Inr_iff:
  "requestOrganizerDecryption e sid s = Inr s' \<longleftrightarrow>
     organizer (sessions s sid) \<noteq> 0 \<and> organizer (sessions s sid) = msg_sender e \<and>
     state (sessions s sid) = Closed \<and> \<not> decryptionRequested s sid \<and>
     s' = s\<lparr>acl := acl s \<union> {(h, p). \<exists>i<unat (numSetups (sessions s sid)).
                              voteCounts s (sid, of_nat i) \<noteq> 0 \<and>
                              h \<in> agg_handles s (sid, of_nat i) \<and>
                              (p = Account (msg_sender e) \<or> p = This)},
             decryptionRequested := (decryptionRequested s)(sid := True)\<rparr>"
  by (auto simp add: requestOrganizerDecryption_def request_loop_eq Let_def)

subsection \<open>The cases of one transaction\<close>

lemma apply_tx_cases [case_names Same Create Submit Close Request Reveal]:
  obtains
    "apply_tx t s = s"
  | e ttl descr dl n names tracks where
      "t = (e, CreateSession ttl descr dl n names tracks)"
      "createSession e ttl descr dl n names tracks s = Inr (sessionCounter s, apply_tx t s)"
      "sessionCounter s + 1 \<noteq> 0"
      "apply_tx t s =
         s\<lparr>sessionCounter := sessionCounter s + 1,
           sessions := (sessions s)(sessionCounter s :=
             \<lparr>organizer = msg_sender e, title = ttl, description = descr,
              deadline = dl, state = Active, numSetups = n,
              equipmentNames = names, trackList = tracks\<rparr>)\<rparr>"
  | e sid idx r tg p where
      "t = (e, SubmitVote sid idx r tg p)"
      "submitVote e sid idx r tg p s = Inr (apply_tx t s)"
      "organizer (sessions s sid) \<noteq> 0" "state (sessions s sid) = Active"
      "\<not> submitted (votes s (sid, idx, msg_sender e))"
      "voteCounts s (sid, idx) + 1 \<noteq> 0"
      "apply_tx t s =
         s\<lparr>votes := (votes s)((sid, idx, msg_sender e) :=
                 \<lparr>rating = Input r, tags = map5 Input tg, submitted = True\<rparr>),
             sessionTotals := (sessionTotals s)((sid, idx) :=
                 (if voteCounts s (sid, idx) = 0 then Input r
                  else HAdd (sessionTotals s (sid, idx)) (Input r))),
             tagTotals := (tagTotals s)((sid, idx) :=
                 (if voteCounts s (sid, idx) = 0 then map5 Input tg
                  else zip5 HAdd (tagTotals s (sid, idx)) (map5 Input tg))),
             voteCounts := (voteCounts s)((sid, idx) := voteCounts s (sid, idx) + 1),
             acl := acl s \<union> insert (Input r) (elems5 (map5 Input tg)) \<times> {Account (msg_sender e), This}
                    \<union> insert (if voteCounts s (sid, idx) = 0 then Input r
                               else HAdd (sessionTotals s (sid, idx)) (Input r))
                        (elems5 (if voteCounts s (sid, idx) = 0 then map5 Input tg
                                 else zip5 HAdd (tagTotals s (sid, idx)) (map5 Input tg))) \<times> {This}\<rparr>"
  | e sid where
      "t = (e, CloseSession sid)"
      "organizer (sessions s sid) \<noteq> 0" "state (sessions s sid) = Active"
      "apply_tx t s = s\<lparr>sessions := (sessions s)(sid := (sessions s sid)\<lparr>state := Closed\<rparr>)\<rparr>"
  | e sid where
      "t = (e, RequestOrganizerDecryption sid)"
      "organizer (sessions s sid) \<noteq> 0" "organizer (sessions s sid) = msg_sender e"
      "state (sessions s sid) = Closed" "\<not> decryptionRequested s sid"
      "apply_tx t s =
         s\<lparr>acl := acl s \<union> {(h, p). \<exists>i<unat (numSetups (sessions s sid)).
                              voteCounts s (sid, of_nat i) \<noteq> 0 \<and>
                              h \<in> agg_handles s (sid, of_nat i) \<and>
                              (p = Account (msg_sender e) \<or> p = This)},
             decryptionRequested := (decryptionRequested s)(sid := True)\<rparr>"
  | e sid where
      "t = (e, RevealEquipment sid)"
      "organizer (sessions s sid) \<noteq> 0" "state (sessions s sid) = Closed"
      "apply_tx t s = s\<lparr>sessions := (sessions s)(sid := (sessions s sid)\<lparr>state := Revealed\<rparr>)\<rparr>"
proof (cases t)
  case (Pair e c)
  show ?thesis
  proof (cases "exec e c s")
    case (Inl err)
    then have "apply_tx t s = s" by (simp add: apply_tx_def Pair)
    then show ?thesis by (rule that(1))
  next
    case (Inr s')
    then have eq: "apply_tx t s = s'" by (simp add: apply_tx_def Pair)
    show ?thesis
    proof (cases c)
      case (CreateSession ttl descr dl n names tracks)
      with Inr obtain sid where "createSession e ttl descr dl n names tracks s = Inr (sid, s')"
        by (auto split: sum.splits)
      then show ?thesis
        using that(2)[of e ttl descr dl n names tracks] Pair CreateSession eq
        by (simp add: createSession_Inr_iff)
    next
      case (SubmitVote sid idx r tg p)
      with Inr have "submitVote e sid idx r tg p s = Inr s'" by simp
      then show ?thesis
        using that(3)[of e sid idx r tg p] Pair SubmitVote eq
        by (simp add: submitVote_Inr_iff)
    next
      case (CloseSession sid)
      with Inr have "closeSession e sid s = Inr s'" by simp
      then show ?thesis
        using that(4)[of e sid] Pair CloseSession eq
        by (auto simp add: closeSession_def split: if_splits)
    next
      case (ComputeRankings sid)
      with Inr have "computeRankings e sid s = Inr s'" by simp
      then have "s' = s" by (auto simp add: computeRankings_def split: if_splits)
      then show ?thesis using that(1) eq by simp
    next
      case (RequestOrganizerDecryption sid)
      with Inr have "requestOrganizerDecryption e sid s = Inr s'" by simp
      then show ?thesis
        using that(5)[of e sid] Pair RequestOrganizerDecryption eq
        by (auto simp add: requestOrganizerDecryption_Inr_iff)
    next
      case (RevealEquipment sid)
      with Inr have "revealEquipment e sid s = Inr s'" by simp
      then show ?thesis
        using that(6)[of e sid] Pair RevealEquipment eq
        by (auto simp add: revealEquipment_def split: if_splits)
    qed
  qed
qed

section \<open>The invariants hold in every reachable state\<close>

lemma word_succ_le_iff:
  fixes c :: "'a::len word"
  assumes "c + 1 \<noteq> 0"
  shows "c + 1 \<le> x \<longleftrightarrow> c \<le> x \<and> x \<noteq> c"
proof -
  have "unat (c + 1) = Suc (unat c)" using assms by (simp add: unatSuc add.commute)
  then show ?thesis
    by (auto simp add: word_le_nat_alt word_unat_eq_iff)
qed

lemma elems5_map5: "elems5 (map5 f t) = f ` elems5 t"
  by (cases t) auto

lemma shape_zip5_HAdd: "h \<in> elems5 (zip5 HAdd a b) \<Longrightarrow> shape h = 2"
  by (cases a; cases b) auto

lemma votes_shape_succ:
  "c + 1 \<noteq> 0 \<Longrightarrow> votes_shape (c + 1) = (if c = 0 then 1 else 2)"
  by (auto simp add: votes_shape_def)

lemma inv_fresh_init: "inv_fresh init"
  by (simp add: inv_fresh_def init_def)

lemma inv_fresh_step: "inv_fresh s \<Longrightarrow> inv_fresh (apply_tx t s)"
proof (cases t s rule: apply_tx_cases)
  case (Create e ttl descr dl n names tracks)
  assume "inv_fresh s"
  then show ?thesis
    using Create(3) by (simp add: inv_fresh_def Create(4) word_succ_le_iff)
next
  case (Close e sid)
  assume a: "inv_fresh s"
  have "\<not> sessionCounter s \<le> sid"
    using a Close(2) by (auto simp add: inv_fresh_def default_session_def)
  with a show ?thesis
    by (auto simp add: inv_fresh_def Close(4))
next
  case (Reveal e sid)
  assume a: "inv_fresh s"
  have "\<not> sessionCounter s \<le> sid"
    using a Reveal(2) by (auto simp add: inv_fresh_def default_session_def)
  with a show ?thesis
    by (auto simp add: inv_fresh_def Reveal(4))
next
  case (Request e sid)
  assume a: "inv_fresh s"
  have "\<not> sessionCounter s \<le> sid"
    using a Request(2) by (auto simp add: inv_fresh_def default_session_def)
  with a show ?thesis
    by (auto simp add: inv_fresh_def Request(6))
qed (simp_all add: inv_fresh_def)

lemma inv_totals_init: "inv_totals init"
  by (simp add: inv_totals_def init_def agg_handles_def votes_shape_def)

lemma inv_totals_step: "inv_totals s \<Longrightarrow> inv_totals (apply_tx t s)"
proof (cases t s rule: apply_tx_cases)
  case (Submit e sid idx r tg p)
  assume a: "inv_totals s"
  show ?thesis
    unfolding inv_totals_def
  proof (intro allI impI)
    fix k h
    assume h: "h \<in> agg_handles (apply_tx t s) k"
    show "shape h = votes_shape (voteCounts (apply_tx t s) k)"
    proof (cases "k = (sid, idx)")
      case True
      with h Submit(6) show ?thesis
        by (auto simp add: Submit(7) agg_handles_def votes_shape_succ elems5_map5
              dest: shape_zip5_HAdd)
    next
      case False
      with h have "h \<in> agg_handles s k" "voteCounts (apply_tx t s) k = voteCounts s k"
        by (simp_all add: Submit(7) agg_handles_def)
      with a show ?thesis
        by (cases k) (simp add: inv_totals_def)
    qed
  qed
qed (simp_all add: inv_totals_def agg_handles_def)

lemma inv_ballots_init: "inv_ballots init"
  by (simp add: inv_ballots_def init_def default_vote_def)

lemma inv_ballots_step: "inv_ballots s \<Longrightarrow> inv_ballots (apply_tx t s)"
proof (cases t s rule: apply_tx_cases)
  case (Submit e sid idx r tg p)
  assume a: "inv_ballots s"
  then show ?thesis
    by (auto simp add: inv_ballots_def Submit(7) vote_handles_def elems5_map5)
qed (simp_all add: inv_ballots_def)

lemma inv_requested_init: "inv_requested init"
  by (simp add: inv_requested_def init_def)

lemma inv_requested_step:
  "inv_fresh s \<Longrightarrow> inv_requested s \<Longrightarrow> inv_requested (apply_tx t s)"
proof (cases t s rule: apply_tx_cases)
  case (Create e ttl descr dl n names tracks)
  assume "inv_fresh s" "inv_requested s"
  then show ?thesis
    by (auto simp add: inv_requested_def inv_fresh_def Create(4))
next
  case (Close e sid)
  assume "inv_fresh s" "inv_requested s"
  then show ?thesis
    by (auto simp add: inv_requested_def Close(4))
next
  case (Reveal e sid)
  assume "inv_fresh s" "inv_requested s"
  then show ?thesis
    by (auto simp add: inv_requested_def Reveal(4))
next
  case (Request e sid)
  assume "inv_fresh s" "inv_requested s"
  then show ?thesis
    using Request(4) by (auto simp add: inv_requested_def Request(6))
next
  case (Submit e sid idx r tg p)
  assume "inv_fresh s" "inv_requested s"
  then show ?thesis
    by (simp add: inv_requested_def Submit(7))
qed simp

subsection \<open>The access-control list\<close>

lemma inv_acl_alt: "inv_acl s \<longleftrightarrow> (\<forall>h p. (h, p) \<in> acl s \<longrightarrow> may_hold s h p)"
  by (simp add: inv_acl_def)

lemma may_hold_This: "may_hold s h This"
  by (simp add: may_hold_def)

lemma may_hold_voter:
  "submitted (votes s (sid, idx, v)) \<Longrightarrow> h \<in> vote_handles (votes s (sid, idx, v))
   \<Longrightarrow> may_hold s h (Account v)"
  unfolding may_hold_def by blast

lemma may_hold_organizer:
  "decryptionRequested s sid \<Longrightarrow> voteCounts s (sid, idx) \<noteq> 0 \<Longrightarrow> h \<in> agg_handles s (sid, idx)
   \<Longrightarrow> may_hold s h (Account (organizer (sessions s sid)))"
  unfolding may_hold_def by blast

lemma may_hold_cases [consumes 1, case_names This Voter Organizer]:
  assumes "may_hold s h p"
  obtains "p = This"
  | sid idx v where "p = Account v" "submitted (votes s (sid, idx, v))"
      "h \<in> vote_handles (votes s (sid, idx, v))"
  | sid idx where "p = Account (organizer (sessions s sid))" "decryptionRequested s sid"
      "voteCounts s (sid, idx) \<noteq> 0" "h \<in> agg_handles s (sid, idx)"
  using assms unfolding may_hold_def by blast

lemma may_hold_step:
  assumes "inv_fresh s" "inv_requested s" "may_hold s h p"
  shows "may_hold (apply_tx t s) h p"
proof (cases t s rule: apply_tx_cases)
  case Same
  with assms show ?thesis by simp
next
  case (Create e ttl descr dl n names tracks)
  from assms(3) show ?thesis
  proof (cases rule: may_hold_cases)
    case This
    then show ?thesis by (simp add: may_hold_This)
  next
    case (Voter sid idx v)
    then show ?thesis
      by (auto simp add: Create(4) intro: may_hold_voter)
  next
    case (Organizer sid idx)
    have "sid \<noteq> sessionCounter s"
      using assms(1) Organizer(2) by (auto simp add: inv_fresh_def)
    then have "organizer (sessions (apply_tx t s) sid) = organizer (sessions s sid)"
      by (simp add: Create(4))
    moreover have "may_hold (apply_tx t s) h (Account (organizer (sessions (apply_tx t s) sid)))"
      using Organizer by (intro may_hold_organizer[where idx = idx]) (simp_all add: Create(4) agg_handles_def)
    ultimately show ?thesis using Organizer(1) by simp
  qed
next
  case (Submit e sid' idx' r tg pr)
  from assms(3) show ?thesis
  proof (cases rule: may_hold_cases)
    case This
    then show ?thesis by (simp add: may_hold_This)
  next
    case (Voter sid idx v)
    then have "(sid, idx, v) \<noteq> (sid', idx', msg_sender e)"
      using Submit(5) by auto
    then have "votes (apply_tx t s) (sid, idx, v) = votes s (sid, idx, v)"
      by (auto simp add: Submit(7))
    with Voter show ?thesis
      by (simp add: may_hold_voter[where sid = sid and idx = idx])
  next
    case (Organizer sid idx)
    have "sid \<noteq> sid'"
      using assms(2) Organizer(2) Submit(4) by (auto simp add: inv_requested_def)
    then have "may_hold (apply_tx t s) h (Account (organizer (sessions (apply_tx t s) sid)))"
      using Organizer by (intro may_hold_organizer[where idx = idx]) (simp_all add: Submit(7) agg_handles_def)
    moreover have "organizer (sessions (apply_tx t s) sid) = organizer (sessions s sid)"
      by (simp add: Submit(7))
    ultimately show ?thesis using Organizer(1) by simp
  qed
next
  case (Close e sid')
  from assms(3) show ?thesis
  proof (cases rule: may_hold_cases)
    case This
    then show ?thesis by (simp add: may_hold_This)
  next
    case (Voter sid idx v)
    then show ?thesis
      by (auto simp add: Close(4) intro: may_hold_voter)
  next
    case (Organizer sid idx)
    have "may_hold (apply_tx t s) h (Account (organizer (sessions (apply_tx t s) sid)))"
      using Organizer by (intro may_hold_organizer[where idx = idx]) (simp_all add: Close(4) agg_handles_def)
    moreover have "organizer (sessions (apply_tx t s) sid) = organizer (sessions s sid)"
      by (simp add: Close(4))
    ultimately show ?thesis using Organizer(1) by simp
  qed
next
  case (Reveal e sid')
  from assms(3) show ?thesis
  proof (cases rule: may_hold_cases)
    case This
    then show ?thesis by (simp add: may_hold_This)
  next
    case (Voter sid idx v)
    then show ?thesis
      by (auto simp add: Reveal(4) intro: may_hold_voter)
  next
    case (Organizer sid idx)
    have "may_hold (apply_tx t s) h (Account (organizer (sessions (apply_tx t s) sid)))"
      using Organizer by (intro may_hold_organizer[where idx = idx]) (simp_all add: Reveal(4) agg_handles_def)
    moreover have "organizer (sessions (apply_tx t s) sid) = organizer (sessions s sid)"
      by (simp add: Reveal(4))
    ultimately show ?thesis using Organizer(1) by simp
  qed
next
  case (Request e sid')
  from assms(3) show ?thesis
  proof (cases rule: may_hold_cases)
    case This
    then show ?thesis by (simp add: may_hold_This)
  next
    case (Voter sid idx v)
    then show ?thesis
      by (auto simp add: Request(6) intro: may_hold_voter)
  next
    case (Organizer sid idx)
    have "may_hold (apply_tx t s) h (Account (organizer (sessions (apply_tx t s) sid)))"
      using Organizer by (intro may_hold_organizer[where idx = idx]) (simp_all add: Request(6) agg_handles_def)
    moreover have "organizer (sessions (apply_tx t s) sid) = organizer (sessions s sid)"
      by (simp add: Request(6))
    ultimately show ?thesis using Organizer(1) by simp
  qed
qed

lemma inv_acl_init: "inv_acl init"
  by (simp add: inv_acl_def init_def)

lemma inv_acl_step:
  assumes "inv_fresh s" "inv_requested s" "inv_acl s"
  shows "inv_acl (apply_tx t s)"
  unfolding inv_acl_alt
proof (intro allI impI)
  fix h p
  assume new: "(h, p) \<in> acl (apply_tx t s)"
  have old: "(h, p) \<in> acl s \<Longrightarrow> may_hold (apply_tx t s) h p"
    using assms by (auto simp add: inv_acl_alt intro: may_hold_step)
  show "may_hold (apply_tx t s) h p"
  proof (cases t s rule: apply_tx_cases)
    case Same
    with new old show ?thesis by simp
  next
    case (Create e ttl descr dl n names tracks)
    with new old show ?thesis by simp
  next
    case (Close e sid)
    with new old show ?thesis by simp
  next
    case (Reveal e sid)
    with new old show ?thesis by simp
  next
    case (Submit e sid idx r tg pr)
    have v: "submitted (votes (apply_tx t s) (sid, idx, msg_sender e))"
      "vote_handles (votes (apply_tx t s) (sid, idx, msg_sender e)) = insert (Input r) (elems5 (map5 Input tg))"
      by (simp_all add: Submit(7) vote_handles_def)
    from new consider "(h, p) \<in> acl s" | "p = This"
      | "p = Account (msg_sender e)" "h \<in> insert (Input r) (elems5 (map5 Input tg))"
      by (auto simp add: Submit(7))
    then show ?thesis
    proof cases
      case 1
      then show ?thesis by (rule old)
    next
      case 2
      then show ?thesis by (simp add: may_hold_This)
    next
      case 3
      then show ?thesis using v by (auto intro: may_hold_voter)
    qed
  next
    case (Request e sid)
    from new consider "(h, p) \<in> acl s" | "p = This"
      | i where "p = Account (msg_sender e)" "voteCounts s (sid, of_nat i) \<noteq> 0"
          "h \<in> agg_handles s (sid, of_nat i)"
      by (auto simp add: Request(6))
    then show ?thesis
    proof cases
      case 1
      then show ?thesis by (rule old)
    next
      case 2
      then show ?thesis by (simp add: may_hold_This)
    next
      case 3
      have "may_hold (apply_tx t s) h (Account (organizer (sessions (apply_tx t s) sid)))"
        using 3 by (intro may_hold_organizer[where idx = "of_nat i"]) (simp_all add: Request(6) agg_handles_def)
      then show ?thesis using 3(1) Request(3) by (simp add: Request(6))
    qed
  qed
qed

subsection \<open>All invariants together\<close>

lemma inv_init: "inv init"
  by (simp add: inv_def inv_fresh_init inv_totals_init inv_ballots_init inv_requested_init inv_acl_init)

lemma inv_step: "inv s \<Longrightarrow> inv (apply_tx t s)"
  by (simp add: inv_def inv_fresh_step inv_totals_step inv_ballots_step inv_requested_step inv_acl_step)

lemma inv_run: "inv s \<Longrightarrow> inv (run tr s)"
  by (induction tr arbitrary: s) (simp_all add: inv_step)

lemma inv_reachable: "inv (run tr init)"
  by (rule inv_run) (rule inv_init)

section \<open>What later transactions keep\<close>

lemma word_less_succ:
  fixes c :: "'a::len word"
  shows "c + 1 \<noteq> 0 \<Longrightarrow> c \<le> c + 1"
  using word_succ_le_iff[of c "c + 1"] by simp

lemma later_refl: "later s s"
  by (simp add: later_def)

lemma later_trans: "later s s' \<Longrightarrow> later s' s'' \<Longrightarrow> later s s''"
  unfolding later_def
  apply (intro conjI allI impI)
          apply (erule conjE)+
          apply (erule (1) order_trans)
         apply (metis (no_types, lifting) order_less_le_trans)
        apply (metis (no_types, lifting) order_less_le_trans)
       apply (metis (no_types, lifting) order_less_le_trans)
      apply (metis (no_types, lifting) order_less_le_trans)
     apply (metis (no_types, lifting) order_less_le_trans order_trans)
    apply metis
   apply blast
  apply blast
  done

lemma later_step: "later s (apply_tx t s)"
proof (cases t s rule: apply_tx_cases)
  case Same
  then show ?thesis by (simp add: later_refl)
next
  case (Create e ttl descr dl n names tracks)
  then show ?thesis
    by (auto simp add: later_def word_less_succ)
next
  case (Submit e sid idx r tg p)
  then show ?thesis
    by (auto simp add: later_def)
next
  case (Close e sid)
  then show ?thesis
    by (auto simp add: later_def)
next
  case (Request e sid)
  then show ?thesis
    by (auto simp add: later_def)
next
  case (Reveal e sid)
  then show ?thesis
    by (auto simp add: later_def)
qed

lemma later_run: "later s (run tr s)"
proof (induction tr arbitrary: s)
  case Nil
  then show ?case by (simp add: later_refl)
next
  case (Cons t tr)
  have "later s (apply_tx t s)" by (rule later_step)
  moreover have "later (apply_tx t s) (run tr (apply_tx t s))" by (rule Cons.IH)
  ultimately show ?case by (simp add: later_trans)
qed

lemma exists_below_counter:
  "inv_fresh s \<Longrightarrow> organizer (sessions s sid) \<noteq> 0 \<Longrightarrow> sid < sessionCounter s"
  by (auto simp add: inv_fresh_def default_session_def not_le[symmetric])

section \<open>Aggregation\<close>

lemma get5_map5: "get5 (map5 f a) j = f (get5 a j)"
  by (cases a) simp

lemma get5_zip5: "get5 (zip5 f a b) j = f (get5 a j) (get5 b j)"
  by (cases a; cases b) simp

lemma get5_in_elems5: "get5 a j \<in> elems5 a"
  by (cases a) simp

lemma shape_0: "shape h = 0 \<longleftrightarrow> h = Uninit"
  by (cases h) simp_all

lemma no_votes_Uninit:
  assumes "inv_totals s" "voteCounts s k = 0"
  shows "sessionTotals s k = Uninit" "get5 (tagTotals s k) j = Uninit"
proof -
  have "\<And>h. h \<in> agg_handles s k \<Longrightarrow> shape h = 0"
    using assms by (cases k) (simp add: inv_totals_def votes_shape_def)
  then have "\<And>h. h \<in> agg_handles s k \<Longrightarrow> h = Uninit"
    by (simp add: shape_0)
  then show "sessionTotals s k = Uninit" "get5 (tagTotals s k) j = Uninit"
    by (simp_all add: agg_handles_def get5_in_elems5)
qed

lemma totals_unchanged:
  assumes "case snd t of SubmitVote sid idx r tg p \<Rightarrow> False | _ \<Rightarrow> True"
  shows "voteCounts (apply_tx t s) = voteCounts s"
    "sessionTotals (apply_tx t s) = sessionTotals s"
    "tagTotals (apply_tx t s) = tagTotals s"
proof -
  have "voteCounts (apply_tx t s) = voteCounts s \<and> sessionTotals (apply_tx t s) = sessionTotals s
        \<and> tagTotals (apply_tx t s) = tagTotals s"
    using assms by (cases t s rule: apply_tx_cases) simp_all
  then show "voteCounts (apply_tx t s) = voteCounts s"
    "sessionTotals (apply_tx t s) = sessionTotals s"
    "tagTotals (apply_tx t s) = tagTotals s"
    by simp_all
qed

lemma submitVote_Inl_apply: "submitVote e sid idx r tg p s = Inl err \<Longrightarrow>
  apply_tx (e, SubmitVote sid idx r tg p) s = s"
  by (simp add: apply_tx_def)

lemma submitVote_Inr_apply: "submitVote e sid idx r tg p s = Inr s' \<Longrightarrow>
  apply_tx (e, SubmitVote sid idx r tg p) s = s'"
  by (simp add: apply_tx_def)

lemma submitVote_fields:
  assumes "submitVote e sid idx r tg p s = Inr s'"
  shows "voteCounts s' = (voteCounts s)((sid, idx) := voteCounts s (sid, idx) + 1)"
    and "voteCounts s (sid, idx) + 1 \<noteq> 0"
    and "sessionTotals s' = (sessionTotals s)((sid, idx) :=
                 (if voteCounts s (sid, idx) = 0 then Input r
                  else HAdd (sessionTotals s (sid, idx)) (Input r)))"
    and "tagTotals s' = (tagTotals s)((sid, idx) :=
                 (if voteCounts s (sid, idx) = 0 then map5 Input tg
                  else zip5 HAdd (tagTotals s (sid, idx)) (map5 Input tg)))"
  using assms by (simp_all add: submitVote_Inr_iff)

lemma count_step:
  "unat (voteCounts (apply_tx t s) k) =
   unat (voteCounts s k) + length (submitted_ballot k (fst t) (snd t) s)"
proof (cases t)
  case (Pair e c)
  show ?thesis
  proof (cases c)
    case (SubmitVote sid idx r tg p)
    show ?thesis
    proof (cases "submitVote e sid idx r tg p s")
      case (Inl err)
      then show ?thesis
        by (simp add: Pair SubmitVote submitVote_Inl_apply)
    next
      case (Inr s')
      then have ap: "apply_tx (e, SubmitVote sid idx r tg p) s = s'" by (rule submitVote_Inr_apply)
      note f = submitVote_fields[OF Inr]
      show ?thesis
      proof (cases "(sid, idx) = k")
        case True
        have "unat (voteCounts s (sid, idx) + 1) = Suc (unat (voteCounts s (sid, idx)))"
          using f(2) by (simp add: unatSuc add.commute)
        then show ?thesis
          using True by (simp add: Pair SubmitVote Inr ap f(1))
      next
        case False
        then show ?thesis
          by (simp add: Pair SubmitVote Inr ap f(1))
      qed
    qed
  qed (simp_all add: Pair totals_unchanged)
qed

lemma rating_step:
  assumes "inv_totals s"
  shows "decrypt pt (sessionTotals (apply_tx t s) k) =
   decrypt pt (sessionTotals s k) + sum_list (map (\<lambda>b. pt (fst b)) (submitted_ballot k (fst t) (snd t) s))"
proof (cases t)
  case (Pair e c)
  show ?thesis
  proof (cases c)
    case (SubmitVote sid idx r tg p)
    show ?thesis
    proof (cases "submitVote e sid idx r tg p s")
      case (Inl err)
      then show ?thesis
        by (simp add: Pair SubmitVote submitVote_Inl_apply)
    next
      case (Inr s')
      then have ap: "apply_tx (e, SubmitVote sid idx r tg p) s = s'" by (rule submitVote_Inr_apply)
      note f = submitVote_fields[OF Inr]
      show ?thesis
      proof (cases "(sid, idx) = k")
        case True
        then show ?thesis
          using no_votes_Uninit(1)[OF assms, of "(sid, idx)"]
          by (simp add: Pair SubmitVote Inr ap f(3))
      next
        case False
        then show ?thesis
          by (simp add: Pair SubmitVote Inr ap f(3))
      qed
    qed
  qed (simp_all add: Pair totals_unchanged)
qed

lemma tag_step:
  assumes "inv_totals s"
  shows "decrypt pt (get5 (tagTotals (apply_tx t s) k) j) =
   decrypt pt (get5 (tagTotals s k) j)
   + sum_list (map (\<lambda>b. pt (get5 (snd b) j)) (submitted_ballot k (fst t) (snd t) s))"
proof (cases t)
  case (Pair e c)
  show ?thesis
  proof (cases c)
    case (SubmitVote sid idx r tg p)
    show ?thesis
    proof (cases "submitVote e sid idx r tg p s")
      case (Inl err)
      then show ?thesis
        by (simp add: Pair SubmitVote submitVote_Inl_apply)
    next
      case (Inr s')
      then have ap: "apply_tx (e, SubmitVote sid idx r tg p) s = s'" by (rule submitVote_Inr_apply)
      note f = submitVote_fields[OF Inr]
      show ?thesis
      proof (cases "(sid, idx) = k")
        case True
        then show ?thesis
          using no_votes_Uninit(2)[OF assms, of "(sid, idx)" j]
          by (simp add: Pair SubmitVote Inr ap f(4) get5_map5 get5_zip5)
      next
        case False
        then show ?thesis
          by (simp add: Pair SubmitVote Inr ap f(4))
      qed
    qed
  qed (simp_all add: Pair totals_unchanged)
qed

lemma count_run:
  "unat (voteCounts (run tr s) k) = unat (voteCounts s k) + length (folded k tr s)"
  by (induction tr arbitrary: s) (simp_all add: count_step)

lemma rating_run:
  "inv s \<Longrightarrow> decrypt pt (sessionTotals (run tr s) k) =
   decrypt pt (sessionTotals s k) + sum_list (map (\<lambda>b. pt (fst b)) (folded k tr s))"
proof (induction tr arbitrary: s)
  case Nil
  then show ?case by simp
next
  case (Cons t tr)
  have "inv (apply_tx t s)" using Cons.prems by (rule inv_step)
  moreover have "inv_totals s" using Cons.prems by (simp add: inv_def)
  ultimately show ?case
    by (simp add: Cons.IH rating_step)
qed

lemma tag_run:
  "inv s \<Longrightarrow> decrypt pt (get5 (tagTotals (run tr s) k) j) =
   decrypt pt (get5 (tagTotals s k) j)
   + sum_list (map (\<lambda>b. pt (get5 (snd b) j)) (folded k tr s))"
proof (induction tr arbitrary: s)
  case Nil
  then show ?case by simp
next
  case (Cons t tr)
  have "inv (apply_tx t s)" using Cons.prems by (rule inv_step)
  moreover have "inv_totals s" using Cons.prems by (simp add: inv_def)
  ultimately show ?case
    by (simp add: Cons.IH tag_step)
qed

lemma unat_sum_list:
  fixes ws :: "'a::len word list"
  shows "unat (sum_list ws) = sum_list (map unat ws) mod 2 ^ LENGTH('a)"
proof (induction ws)
  case Nil
  then show ?case by simp
next
  case (Cons w ws)
  have "unat (w + sum_list ws) = (unat w + unat (sum_list ws)) mod 2 ^ LENGTH('a)"
    by (simp add: unat_word_ariths)
  also have "\<dots> = (unat w + sum_list (map unat ws)) mod 2 ^ LENGTH('a)"
    by (simp add: Cons.IH mod_add_right_eq)
  finally show ?case by simp
qed

lemma count_reachable:
  "unat (voteCounts (run tr init) k) = length (folded k tr init)"
  by (simp add: count_run) (simp add: init_def)

lemma rating_reachable:
  "decrypt pt (sessionTotals (run tr init) k) = sum_list (map (\<lambda>b. pt (fst b)) (folded k tr init))"
  by (simp add: rating_run inv_init) (simp add: init_def)

lemma tag_reachable:
  "decrypt pt (get5 (tagTotals (run tr init) k) j) =
   sum_list (map (\<lambda>b. pt (get5 (snd b) j)) (folded k tr init))"
  by (simp add: tag_run inv_init) (simp add: init_def)

lemma sum_list_mset_cong:
  fixes f :: "'b \<Rightarrow> 'a::comm_monoid_add"
  assumes "mset xs = mset ys"
  shows "sum_list (map f xs) = sum_list (map f ys)"
proof -
  have "sum_mset (mset (map f xs)) = sum_mset (mset (map f ys))"
    using assms by simp
  then show ?thesis
    by (simp only: sum_mset_sum_list)
qed

section \<open>The example states\<close>

lemmas ex_simps = tx_env_def ex_create_def ex_open_def apply_tx_def createSession_def init_def
  closeSession_def Let_def

lemma ex_open_session:
  "sessions (run ex_open init) 0 =
     \<lparr>organizer = 1, title = ''Blind test'', description = ''Two setups'', deadline = 1000,
      state = Active, numSetups = 2, equipmentNames = [''A'', ''B''], trackList = ''''\<rparr>"
  by (simp add: ex_simps)

lemma ex_open_fields:
  "votes (run ex_open init) = (\<lambda>_. default_vote)"
  "voteCounts (run ex_open init) = (\<lambda>_. 0)"
  "decryptionRequested (run ex_open init) = (\<lambda>_. False)"
  by (simp_all add: ex_simps)

lemma run_append: "run (tr @ tr') s = run tr' (run tr s)"
  by (induction tr arbitrary: s) simp_all

lemma run_snoc: "run (tr @ [t]) s = apply_tx t (run tr s)"
  by (simp add: run_append)

lemma no_ballots_Uninit:
  assumes "folded k tr init = []"
  shows "sessionTotals (run tr init) k = Uninit" "get5 (tagTotals (run tr init) k) j = Uninit"
proof -
  have "unat (voteCounts (run tr init) k) = 0"
    using assms by (simp add: count_reachable)
  then have "voteCounts (run tr init) k = 0"
    by (simp add: unat_eq_0)
  moreover have "inv_totals (run tr init)"
    using inv_reachable[of tr] by (simp add: inv_def)
  ultimately show "sessionTotals (run tr init) k = Uninit"
    "get5 (tagTotals (run tr init) k) j = Uninit"
    by (simp_all add: no_votes_Uninit)
qed

lemma step_state_forward:
  assumes "inv_fresh s"
  shows "state (sessions (apply_tx t s) sid) = state (sessions s sid)
    \<or> state (sessions s sid) = Draft \<and> state (sessions (apply_tx t s) sid) = Active
    \<or> state (sessions s sid) = Active \<and> state (sessions (apply_tx t s) sid) = Closed
    \<or> state (sessions s sid) = Closed \<and> state (sessions (apply_tx t s) sid) = Revealed"
proof (cases t s rule: apply_tx_cases)
  case (Create e ttl descr dl n names tracks)
  have "sessions s (sessionCounter s) = default_session"
    using assms by (simp add: inv_fresh_def)
  then show ?thesis
    by (simp add: Create(4) default_session_def)
qed auto

lemma step_rank: "inv_fresh s \<Longrightarrow> rank (state (sessions s sid)) \<le> rank (state (sessions (apply_tx t s) sid))"
  using step_state_forward[of s t sid] by auto

lemma run_rank:
  "inv s \<Longrightarrow> rank (state (sessions s sid)) \<le> rank (state (sessions (run tr s) sid))"
proof (induction tr arbitrary: s)
  case Nil
  then show ?case by simp
next
  case (Cons t tr)
  have "rank (state (sessions s sid)) \<le> rank (state (sessions (apply_tx t s) sid))"
    using Cons.prems by (simp add: step_rank inv_def)
  also have "\<dots> \<le> rank (state (sessions (run tr (apply_tx t s)) sid))"
    using Cons.prems by (intro Cons.IH inv_step)
  finally show ?case by simp
qed

lemma ex_close_ok:
  "closeSession (tx_env 1 40) 0 (run ex_open init) = Inr (run ex_closed init)"
  by (simp add: ex_closed_def run_snoc ex_close_def apply_tx_def closeSession_def ex_open_session tx_env_def)

lemma ex_closed_session:
  "sessions (run ex_closed init) 0 =
     \<lparr>organizer = 1, title = ''Blind test'', description = ''Two setups'', deadline = 1000,
      state = Closed, numSetups = 2, equipmentNames = [''A'', ''B''], trackList = ''''\<rparr>"
  by (simp add: ex_closed_def run_snoc ex_close_def apply_tx_def closeSession_def ex_open_session tx_env_def)

lemma ex_reveal_ok:
  "revealEquipment (tx_env 1 60) 0 (run ex_closed init) = Inr (run ex_revealed init)"
  by (simp add: ex_revealed_def run_snoc ex_reveal_def apply_tx_def revealEquipment_def ex_closed_session tx_env_def)

lemma ex_revealed_session:
  "sessions (run ex_revealed init) 0 =
     \<lparr>organizer = 1, title = ''Blind test'', description = ''Two setups'', deadline = 1000,
      state = Revealed, numSetups = 2, equipmentNames = [''A'', ''B''], trackList = ''''\<rparr>"
  by (simp add: ex_revealed_def run_snoc ex_reveal_def apply_tx_def revealEquipment_def ex_closed_session tx_env_def)

lemma counter_step: "unat (sessionCounter (apply_tx t s)) \<le> Suc (unat (sessionCounter s))"
proof (cases t s rule: apply_tx_cases)
  case (Create e ttl descr dl n names tracks)
  have "unat (sessionCounter s + 1) = Suc (unat (sessionCounter s))"
    using Create(3) by (simp add: unatSuc add.commute)
  then show ?thesis by (simp add: Create(4))
qed simp_all

lemma counter_run: "unat (sessionCounter (run tr s)) \<le> unat (sessionCounter s) + length tr"
proof (induction tr arbitrary: s)
  case Nil
  then show ?case by simp
next
  case (Cons t tr)
  have "unat (sessionCounter (run tr (apply_tx t s))) \<le> unat (sessionCounter (apply_tx t s)) + length tr"
    by (rule Cons.IH)
  also have "\<dots> \<le> Suc (unat (sessionCounter s)) + length tr"
    using counter_step[of t s] by simp
  finally show ?case by simp
qed

lemma counter_not_max:
  assumes "length tr < 2 ^ 256 - 1"
  shows "sessionCounter (run tr init) + 1 \<noteq> 0"
proof
  assume z: "sessionCounter (run tr init) + 1 = 0"
  have "unat (sessionCounter (run tr init)) \<le> length tr"
    using counter_run[of tr init] by (simp add: init_def)
  then have small: "unat (sessionCounter (run tr init)) + 1 < 2 ^ 256"
    using assms by simp
  have "unat (sessionCounter (run tr init) + 1) = (unat (sessionCounter (run tr init)) + 1) mod 2 ^ 256"
    by (simp add: unat_word_ariths)
  also have "\<dots> = unat (sessionCounter (run tr init)) + 1"
    using small by simp
  finally show False using z by simp
qed

lemma createSession_counter_full:
  "block_timestamp e < dl \<Longrightarrow> 2 \<le> n \<Longrightarrow> n \<le> 10 \<Longrightarrow> length names = unat n \<Longrightarrow>
   sessionCounter s = - 1 \<Longrightarrow> createSession e ttl descr dl n names tracks s = Inl Panic"
  by (simp add: createSession_def)

lemma word_less_succ_strict:
  fixes c :: "'a::len word"
  shows "c + 1 \<noteq> 0 \<Longrightarrow> c < c + 1"
  using word_succ_le_iff[of c "c + 1"] by (auto simp add: less_le)

lemma created_session_kept:
  assumes "createSession e ttl descr dl n names tracks s = Inr (sid, s')"
  shows "organizer (sessions (run tr s') sid) = msg_sender e"
    and "equipmentNames (sessions (run tr s') sid) = names"
proof -
  have "sid < sessionCounter s'"
    using assms by (auto simp add: createSession_Inr_iff word_less_succ_strict)
  then have "organizer (sessions (run tr s') sid) = organizer (sessions s' sid)"
    "equipmentNames (sessions (run tr s') sid) = equipmentNames (sessions s' sid)"
    using later_run[of s' tr] by (simp_all add: later_def)
  then show "organizer (sessions (run tr s') sid) = msg_sender e"
    and "equipmentNames (sessions (run tr s') sid) = names"
    using assms by (auto simp add: createSession_Inr_iff)
qed

lemma ex_create_ok:
  "createSession (tx_env 1 10) ''Blind test'' ''Two setups'' 1000 2 [''A'', ''B''] '''' init
   = Inr (0, run ex_open init)"
  by (simp add: ex_simps)

lemma ex_open_counter: "sessionCounter (run ex_open init) = 1"
  by (simp add: ex_simps)

lemma ex_revealed_run: "run [ex_close, ex_reveal] (run ex_open init) = run ex_revealed init"
  by (simp add: ex_revealed_def ex_closed_def run_append)

lemma ex_vote1_ok:
  "\<exists>s'. submitVote (tx_env 2 20) 0 0 0 (Array5 1 2 3 4 5) [] (run ex_open init) = Inr s'"
  by (simp add: submitVote_Inr_iff ex_open_session ex_open_fields tx_env_def default_vote_def)

lemma ex_voted_eq:
  "submitVote (tx_env 2 20) 0 0 0 (Array5 1 2 3 4 5) [] (run ex_open init) = Inr (run ex_voted init)"
  using ex_vote1_ok by (auto simp add: ex_voted_def run_snoc ex_vote1_def apply_tx_def)

lemma ex_voted_fields:
  "sessions (run ex_voted init) = sessions (run ex_open init)"
  "decryptionRequested (run ex_voted init) = (\<lambda>_. False)"
  "votes (run ex_voted init) (0, 0, 2) =
     \<lparr>rating = Input 0, tags = Array5 (Input 1) (Input 2) (Input 3) (Input 4) (Input 5), submitted = True\<rparr>"
  "voteCounts (run ex_voted init) (0, 0) = 1"
  "sessionTotals (run ex_voted init) (0, 0) = Input 0"
  using ex_voted_eq
  by (simp_all add: submitVote_Inr_iff ex_open_fields tx_env_def)

lemma ex_voted_closed_fields:
  "sessions (run ex_voted_closed init) 0 =
     \<lparr>organizer = 1, title = ''Blind test'', description = ''Two setups'', deadline = 1000,
      state = Closed, numSetups = 2, equipmentNames = [''A'', ''B''], trackList = ''''\<rparr>"
  "decryptionRequested (run ex_voted_closed init) = (\<lambda>_. False)"
  "votes (run ex_voted_closed init) = votes (run ex_voted init)"
  "voteCounts (run ex_voted_closed init) = voteCounts (run ex_voted init)"
  "sessionTotals (run ex_voted_closed init) = sessionTotals (run ex_voted init)"
  by (simp_all add: ex_voted_closed_def run_snoc ex_close_def apply_tx_def closeSession_def
        ex_voted_fields ex_open_session tx_env_def)

lemma ex_request_ok:
  "\<exists>s'. requestOrganizerDecryption (tx_env 1 50) 0 (run ex_voted_closed init) = Inr s'"
  by (simp add: requestOrganizerDecryption_Inr_iff ex_voted_closed_fields tx_env_def)

lemma ex_voted_requested_eq:
  "requestOrganizerDecryption (tx_env 1 50) 0 (run ex_voted_closed init) = Inr (run ex_voted_requested init)"
  using ex_request_ok by (auto simp add: ex_voted_requested_def run_snoc ex_request_def apply_tx_def)

lemma ex_voted_requested_fields:
  "sessions (run ex_voted_requested init) = sessions (run ex_voted_closed init)"
  "decryptionRequested (run ex_voted_requested init) 0"
  "votes (run ex_voted_requested init) = votes (run ex_voted init)"
  "voteCounts (run ex_voted_requested init) = voteCounts (run ex_voted init)"
  "sessionTotals (run ex_voted_requested init) = sessionTotals (run ex_voted init)"
  using ex_voted_requested_eq
  by (simp_all add: requestOrganizerDecryption_Inr_iff ex_voted_closed_fields)

lemma ex_requested_revealed_session:
  "sessions (run (ex_voted_requested @ [ex_reveal]) init) 0 =
     \<lparr>organizer = 1, title = ''Blind test'', description = ''Two setups'', deadline = 1000,
      state = Revealed, numSetups = 2, equipmentNames = [''A'', ''B''], trackList = ''''\<rparr>"
  by (simp add: run_snoc ex_reveal_def apply_tx_def revealEquipment_def
        ex_voted_requested_fields ex_voted_closed_fields tx_env_def)

lemma apply_reachable: "inv (apply_tx t (run tr init))"
  by (intro inv_step inv_reachable)

lemma session_kept:
  assumes "inv_fresh s" "organizer (sessions s sid) \<noteq> 0"
  shows "organizer (sessions (run tr s) sid) = organizer (sessions s sid)"
    and "deadline (sessions (run tr s) sid) = deadline (sessions s sid)"
    and "numSetups (sessions (run tr s) sid) = numSetups (sessions s sid)"
proof -
  have "sid < sessionCounter s"
    using assms by (rule exists_below_counter)
  then show "organizer (sessions (run tr s) sid) = organizer (sessions s sid)"
    and "deadline (sessions (run tr s) sid) = deadline (sessions s sid)"
    and "numSetups (sessions (run tr s) sid) = numSetups (sessions s sid)"
    using later_run[of s tr] by (simp_all add: later_def)
qed

lemma requested_kept: "decryptionRequested s sid \<Longrightarrow> decryptionRequested (run tr s) sid"
  using later_run[of s tr] by (simp add: later_def)

lemma vote_kept: "submitted (votes s key) \<Longrightarrow> votes (run tr s) key = votes s key"
  using later_run[of s tr] unfolding later_def by blast

lemma request_grants:
  assumes "requestOrganizerDecryption e sid s = Inr s'"
    and "idx < numSetups (sessions s sid)" "0 < voteCounts s (sid, idx)" "h \<in> agg_handles s (sid, idx)"
  shows "(h, Account (organizer (sessions s sid))) \<in> acl s'"
proof -
  have "unat idx < unat (numSetups (sessions s sid))"
    using assms(2) by (simp add: word_less_nat_alt)
  moreover have "voteCounts s (sid, of_nat (unat idx)) \<noteq> 0"
    "h \<in> agg_handles s (sid, of_nat (unat idx))"
    using assms(3,4) by simp_all
  ultimately have "\<exists>i<unat (numSetups (sessions s sid)).
      voteCounts s (sid, of_nat i) \<noteq> 0 \<and> h \<in> agg_handles s (sid, of_nat i)"
    by blast
  then show ?thesis
    using assms(1) unfolding requestOrganizerDecryption_Inr_iff by auto
qed

lemma setup_index_sets:
  fixes n :: uint8
  shows "{(h, p). \<exists>i<unat n. voteCounts s (sid, of_nat i) \<noteq> 0 \<and> h \<in> agg_handles s (sid, of_nat i) \<and>
                   (p = Account a \<or> p = This)}
       = {(h, p). \<exists>idx. idx < n \<and> 0 < voteCounts s (sid, idx) \<and> h \<in> agg_handles s (sid, idx) \<and>
                   (p = Account a \<or> p = This)}"
  (is "?A = ?B")
proof (intro set_eqI iffI)
  fix x
  assume "x \<in> ?A"
  then obtain h p i where x: "x = (h, p)" and i: "i < unat n"
    and c: "voteCounts s (sid, of_nat i) \<noteq> 0" "h \<in> agg_handles s (sid, of_nat i)"
      "p = Account a \<or> p = This"
    by auto
  have "unat n < 2 ^ LENGTH(8)"
    by (rule unsigned_less)
  then have "i < 2 ^ LENGTH(8)"
    using i by simp
  then have "unat (of_nat i :: uint8) = i"
    by (simp add: of_nat_inverse)
  then have "(of_nat i :: uint8) < n"
    using i by (simp add: word_less_nat_alt)
  moreover have "0 < voteCounts s (sid, of_nat i)"
    using c(1) by (simp add: word_greater_zero_iff)
  ultimately show "x \<in> ?B"
    using x c(2,3) by blast
next
  fix x
  assume "x \<in> ?B"
  then obtain h p idx where x: "x = (h, p)" and i: "idx < n"
    and c: "0 < voteCounts s (sid, idx)" "h \<in> agg_handles s (sid, idx)"
      "p = Account a \<or> p = This"
    by auto
  have "unat idx < unat n"
    using i by (simp add: word_less_nat_alt)
  moreover have "voteCounts s (sid, of_nat (unat idx)) \<noteq> 0"
    "h \<in> agg_handles s (sid, of_nat (unat idx))"
    using c(1,2) by simp_all
  ultimately show "x \<in> ?A"
    using x c(3) by blast
qed

lemma request_post_state:
  assumes "requestOrganizerDecryption e sid s = Inr s'"
  shows "s' = s\<lparr>acl := acl s \<union>
                {(h, p). \<exists>idx. idx < numSetups (sessions s sid) \<and> 0 < voteCounts s (sid, idx) \<and>
                           h \<in> agg_handles s (sid, idx) \<and>
                           (p = Account (organizer (sessions s sid)) \<or> p = This)},
              decryptionRequested := (decryptionRequested s)(sid := True)\<rparr>"
proof -
  have o: "organizer (sessions s sid) = msg_sender e"
    using assms by (simp add: requestOrganizerDecryption_Inr_iff)
  have "s' = s\<lparr>acl := acl s \<union> {(h, p). \<exists>i<unat (numSetups (sessions s sid)).
                              voteCounts s (sid, of_nat i) \<noteq> 0 \<and>
                              h \<in> agg_handles s (sid, of_nat i) \<and>
                              (p = Account (msg_sender e) \<or> p = This)},
             decryptionRequested := (decryptionRequested s)(sid := True)\<rparr>"
    using assms by (simp add: requestOrganizerDecryption_Inr_iff)
  then show ?thesis
    by (simp only: setup_index_sets o)
qed

lemma second_request:
  assumes "requestOrganizerDecryption e sid (run tr init) = Inr s'"
  shows "requestOrganizerDecryption e' sid (run tr' s') =
          Inl (if organizer (sessions s' sid) \<noteq> msg_sender e' then NotOrganizer
               else if state (sessions (run tr' s') sid) \<noteq> Closed then NotClosed
               else AlreadyRequested)"
proof -
  have "s' = apply_tx (e, RequestOrganizerDecryption sid) (run tr init)"
    using assms by (simp add: apply_tx_def)
  then have "inv s'"
    by (simp add: apply_reachable)
  then have f: "inv_fresh s'"
    by (simp add: inv_def)
  have o: "organizer (sessions s' sid) \<noteq> 0" and r: "decryptionRequested s' sid"
    using assms by (auto simp add: requestOrganizerDecryption_Inr_iff)
  have "organizer (sessions (run tr' s') sid) = organizer (sessions s' sid)"
    using f o by (rule session_kept)
  moreover have "decryptionRequested (run tr' s') sid"
    using r by (rule requested_kept)
  ultimately show ?thesis
    using o by (simp add: requestOrganizerDecryption_def)
qed

lemma second_submit:
  assumes "submitVote e sid idx r tg p (run tr init) = Inr s'" "msg_sender e' = msg_sender e"
  shows "submitVote e' sid idx r' tg' p' (run tr' s') =
          Inl (if state (sessions (run tr' s') sid) \<noteq> Active then SessionNotActive
               else if deadline (sessions s' sid) < block_timestamp e' then DeadlinePassed
               else DuplicateVote)"
    and "votes (run tr' s') (sid, idx, msg_sender e) =
          \<lparr>rating = Input r, tags = map5 Input tg, submitted = True\<rparr>"
proof -
  have "s' = apply_tx (e, SubmitVote sid idx r tg p) (run tr init)"
    using assms(1) by (simp add: apply_tx_def)
  then have "inv s'"
    by (simp add: apply_reachable)
  then have f: "inv_fresh s'"
    by (simp add: inv_def)
  have o: "organizer (sessions s' sid) \<noteq> 0" and n: "idx < numSetups (sessions s' sid)"
    and v: "votes s' (sid, idx, msg_sender e) = \<lparr>rating = Input r, tags = map5 Input tg, submitted = True\<rparr>"
    using assms(1) by (auto simp add: submitVote_Inr_iff)
  have k: "organizer (sessions (run tr' s') sid) = organizer (sessions s' sid)"
    "deadline (sessions (run tr' s') sid) = deadline (sessions s' sid)"
    "numSetups (sessions (run tr' s') sid) = numSetups (sessions s' sid)"
    using f o by (rule session_kept)+
  have "submitted (votes s' (sid, idx, msg_sender e))"
    using v by simp
  then have "votes (run tr' s') (sid, idx, msg_sender e) = votes s' (sid, idx, msg_sender e)"
    by (rule vote_kept)
  with v show w: "votes (run tr' s') (sid, idx, msg_sender e) =
          \<lparr>rating = Input r, tags = map5 Input tg, submitted = True\<rparr>"
    by simp
  show "submitVote e' sid idx r' tg' p' (run tr' s') =
          Inl (if state (sessions (run tr' s') sid) \<noteq> Active then SessionNotActive
               else if deadline (sessions s' sid) < block_timestamp e' then DeadlinePassed
               else DuplicateVote)"
    using o n k w assms(2) by (simp add: submitVote_def not_le)
qed

lemma folded_append: "folded k (tr @ tr') s = folded k tr s @ folded k tr' (run tr s)"
  by (induction tr arbitrary: s) simp_all

lemma ex_first_vote:
  assumes "t \<le> 1000"
  shows "\<exists>s'. submitVote (tx_env a t) 0 0 r tg [] (run ex_open init) = Inr s'"
  using assms
  by (simp add: submitVote_Inr_iff ex_open_session ex_open_fields tx_env_def default_vote_def)

lemma ex_second_vote:
  assumes "t \<le> 1000" "t' \<le> 1000" "a \<noteq> b"
  shows "\<exists>s'. submitVote (tx_env b t') 0 0 r' tg' []
                (apply_tx (tx_env a t, SubmitVote 0 0 r tg []) (run ex_open init)) = Inr s'"
proof -
  obtain s1 where s1: "submitVote (tx_env a t) 0 0 r tg [] (run ex_open init) = Inr s1"
    using ex_first_vote[OF assms(1)] by blast
  then have "apply_tx (tx_env a t, SubmitVote 0 0 r tg []) (run ex_open init) = s1"
    by (simp add: apply_tx_def)
  moreover have "sessions s1 = sessions (run ex_open init)" "voteCounts s1 (0, 0) = 1"
    "\<not> submitted (votes s1 (0, 0, b))"
    using s1 assms(3) by (auto simp add: submitVote_Inr_iff ex_open_fields tx_env_def default_vote_def)
  ultimately show ?thesis
    using assms(2) by (simp add: submitVote_Inr_iff ex_open_session tx_env_def)
qed

lemma ex_folded_two:
  assumes "t \<le> 1000" "t' \<le> 1000" "a \<noteq> b"
  shows "folded (0, 0) (ex_open @ [(tx_env a t, SubmitVote 0 0 r tg []),
                                   (tx_env b t', SubmitVote 0 0 r' tg' [])]) init
         = [(r, tg), (r', tg')]"
proof -
  have "folded (0, 0) ex_open init = []"
    by (simp add: ex_open_def ex_create_def)
  moreover obtain s1 where "submitVote (tx_env a t) 0 0 r tg [] (run ex_open init) = Inr s1"
    using ex_first_vote[OF assms(1)] by blast
  moreover obtain s2 where "submitVote (tx_env b t') 0 0 r' tg' []
                (apply_tx (tx_env a t, SubmitVote 0 0 r tg []) (run ex_open init)) = Inr s2"
    using ex_second_vote[OF assms] by blast
  ultimately show ?thesis
    by (simp add: folded_append)
qed

lemma ex_two_folded:
  "folded (0, 0) ex_two init = [(0, Array5 1 2 3 4 5), (6, Array5 7 8 9 10 11)]"
  "folded (0, 0) ex_two_swapped init = [(6, Array5 7 8 9 10 11), (0, Array5 1 2 3 4 5)]"
  by (simp_all add: ex_two_def ex_two_swapped_def ex_vote1_def ex_vote2_def ex_folded_two)

lemma votes_shape_1: "votes_shape c = 1 \<longleftrightarrow> c = 1"
  by (simp add: votes_shape_def)

lemma ballot_handle_holder:
  assumes "inv s" "submitted (votes s (sid, idx, v))" "h \<in> vote_handles (votes s (sid, idx, v))"
    "(h, p) \<in> acl s"
  shows "p = This
      \<or> (\<exists>sid' idx' v'. p = Account v' \<and> submitted (votes s (sid', idx', v')) \<and>
            h \<in> vote_handles (votes s (sid', idx', v')))
      \<or> (\<exists>sid' idx'. p = Account (organizer (sessions s sid')) \<and> decryptionRequested s sid' \<and>
            voteCounts s (sid', idx') = 1 \<and> h \<in> agg_handles s (sid', idx'))"
proof -
  have sh: "shape h = 1"
    using assms(1,2,3) unfolding inv_def inv_ballots_def by blast
  have "may_hold s h p"
    using assms(1,4) by (simp add: inv_def inv_acl_alt)
  then show ?thesis
  proof (cases rule: may_hold_cases)
    case This
    then show ?thesis by simp
  next
    case (Voter sid' idx' v')
    then show ?thesis by blast
  next
    case (Organizer sid' idx')
    have "shape h = votes_shape (voteCounts s (sid', idx'))"
      using assms(1) Organizer(4) unfolding inv_def inv_totals_def by blast
    with sh have "votes_shape (voteCounts s (sid', idx')) = 1"
      by simp
    then have "voteCounts s (sid', idx') = 1"
      by (simp only: votes_shape_1)
    with Organizer show ?thesis by blast
  qed
qed

lemma ex_voted_acl:
  "acl (run ex_voted init) =
     insert (Input 0) (elems5 (Array5 (Input 1) (Input 2) (Input 3) (Input 4) (Input 5)))
       \<times> {Account 2, This}"
proof -
  have "acl (run ex_open init) = {}"
    by (simp add: ex_simps)
  then show ?thesis
    using ex_voted_eq
    by (auto simp add: submitVote_Inr_iff ex_open_fields tx_env_def)
qed

lemma ex_voted_closed_acl: "acl (run ex_voted_closed init) = acl (run ex_voted init)"
  by (simp add: ex_voted_closed_def run_snoc ex_close_def apply_tx_def closeSession_def
        ex_voted_fields ex_open_session tx_env_def)

lemma ex_organizer_granted: "(Input 0, Account 1) \<in> acl (run ex_voted_requested init)"
proof -
  have "(0 :: uint8) < numSetups (sessions (run ex_voted_closed init) 0)"
    "0 < voteCounts (run ex_voted_closed init) (0, 0)"
    "Input 0 \<in> agg_handles (run ex_voted_closed init) (0, 0)"
    "organizer (sessions (run ex_voted_closed init) 0) = 1"
    by (simp_all add: ex_voted_closed_fields ex_voted_fields agg_handles_def)
  then show ?thesis
    using request_grants[OF ex_voted_requested_eq, of 0 "Input 0"] by simp
qed

lemma ex_crowd_Suc: "ex_crowd (Suc n) = ex_crowd n @ [ex_ballot n]"
  by (simp add: ex_crowd_def)

lemma ex_voter_distinct:
  assumes "i < n" "n \<le> 256"
  shows "(of_nat (n + 2) :: address) \<noteq> of_nat (i + 2)"
proof
  assume eq: "(of_nat (n + 2) :: address) = of_nat (i + 2)"
  have "n + 2 < 2 ^ LENGTH(160)" "i + 2 < 2 ^ LENGTH(160)"
    using assms by simp_all
  then have "unat (of_nat (n + 2) :: address) = n + 2" "unat (of_nat (i + 2) :: address) = i + 2"
    by (simp_all add: of_nat_inverse)
  with eq have "n + 2 = i + 2"
    by simp
  then show False using assms(1) by simp
qed

lemma ex_crowd_state:
  assumes "n \<le> 256"
  shows "sessions (run (ex_crowd n) init) = sessions (run ex_open init)
    \<and> (\<forall>a. submitted (votes (run (ex_crowd n) init) (0, 0, a)) \<longrightarrow> (\<exists>i<n. a = of_nat (i + 2)))
    \<and> length (folded (0, 0) (ex_crowd n) init) = n"
  using assms
proof (induction n)
  case 0
  then show ?case
    by (simp add: ex_crowd_def ex_open_fields default_vote_def) (simp add: ex_open_def ex_create_def)
next
  case (Suc n)
  let ?s = "run (ex_crowd n) init"
  let ?e = "tx_env (of_nat (n + 2)) 20"
  let ?tg = "Array5 (6 * n + 1) (6 * n + 2) (6 * n + 3) (6 * n + 4) (6 * n + 5)"
  from Suc have ih: "sessions ?s = sessions (run ex_open init)"
    "\<And>a. submitted (votes ?s (0, 0, a)) \<Longrightarrow> \<exists>i<n. a = of_nat (i + 2)"
    "length (folded (0, 0) (ex_crowd n) init) = n"
    by simp_all
  have fresh: "\<not> submitted (votes ?s (0, 0, of_nat (n + 2)))"
  proof
    assume "submitted (votes ?s (0, 0, of_nat (n + 2)))"
    then obtain i where "i < n" "(of_nat (n + 2) :: address) = of_nat (i + 2)"
      using ih(2) by blast
    then show False
      using ex_voter_distinct[of i n] Suc.prems by simp
  qed
  have "unat (voteCounts ?s (0, 0)) = n"
    using ih(3) by (simp add: count_reachable)
  then have "unat (voteCounts ?s (0, 0) + 1) = (n + 1) mod 2 ^ 16"
    by (simp add: unat_word_ariths)
  also have "\<dots> = n + 1"
    using Suc.prems by simp
  finally have room: "voteCounts ?s (0, 0) + 1 \<noteq> 0"
    by auto
  have ok: "\<exists>s'. submitVote ?e 0 0 (6 * n) ?tg [] ?s = Inr s'"
    using fresh room
    by (simp add: submitVote_Inr_iff ih(1) ex_open_session tx_env_def)
  then obtain s' where s': "submitVote ?e 0 0 (6 * n) ?tg [] ?s = Inr s'"
    by blast
  then have run': "run (ex_crowd (Suc n)) init = s'"
    by (simp add: ex_crowd_Suc run_snoc ex_ballot_def apply_tx_def)
  have 1: "sessions s' = sessions (run ex_open init)"
    using s' ih(1) by (simp add: submitVote_Inr_iff)
  have 2: "\<forall>a. submitted (votes s' (0, 0, a)) \<longrightarrow> (\<exists>i<Suc n. a = of_nat (i + 2))"
  proof (intro allI impI)
    fix a
    assume "submitted (votes s' (0, 0, a))"
    then have "a = of_nat (n + 2) \<or> submitted (votes ?s (0, 0, a))"
      using s' by (auto simp add: submitVote_Inr_iff tx_env_def split: if_splits)
    then show "\<exists>i<Suc n. a = of_nat (i + 2)"
      using ih(2)[of a] less_Suc_eq by auto
  qed
  have 3: "length (folded (0, 0) (ex_crowd (Suc n)) init) = Suc n"
    using s' ih(3) by (simp add: ex_crowd_Suc folded_append ex_ballot_def)
  from 1 2 3 show ?case
    by (simp only: run')
qed

lemma ex_crowd_tag_total:
  "decrypt ex_pt8_ones (get5 (tagTotals (run (ex_crowd 256) init) (0, 0)) 0) = 0"
proof -
  have "decrypt ex_pt8_ones (get5 (tagTotals (run (ex_crowd 256) init) (0, 0)) 0)
        = (of_nat (length (folded (0, 0) (ex_crowd 256) init)) :: 8 word)"
    by (simp add: tag_reachable ex_pt8_ones_def sum_list_triv)
  also have "\<dots> = of_nat 256"
    using ex_crowd_state[of 256] by simp
  finally show ?thesis by simp
qed

section \<open>The claims\<close>

subsection \<open>C1: the aggregate counts and sums the folded ballots\<close>

text \<open>
  C1, amended. After any transactions, the vote counter of a setup is the number of
  ballots folded into it, the decrypted rating total is the sum of the folded ratings
  modulo \<open>2 ^ 16\<close> (the width of \<^verbatim>\<open>euint16\<close>) and each decrypted tag total is the sum of
  the folded tag values modulo \<open>2 ^ 8\<close> (the width of \<^verbatim>\<open>euint8\<close>); they equal the
  arithmetic sums as long as those stay below \<open>2 ^ 16\<close> and \<open>2 ^ 8\<close>. The counter and
  the decrypted totals depend on the folded ballots only as a multiset: two histories
  that fold the same ballots in any order give the same values.
\<close>
theorem aggregate_totals:
  "unat (voteCounts (run tr init) k) = length (folded k tr init)
   \<and> unat (decrypt pt16 (sessionTotals (run tr init) k))
       = rating_sum pt16 (folded k tr init) mod 2 ^ 16
   \<and> (j < 5 \<longrightarrow>
        unat (decrypt pt8 (get5 (tagTotals (run tr init) k) j))
        = tag_sum pt8 j (folded k tr init) mod 2 ^ 8)
   \<and> (mset (folded k' tr' init) = mset (folded k tr init) \<longrightarrow>
        voteCounts (run tr' init) k' = voteCounts (run tr init) k
        \<and> (decrypt pt16 (sessionTotals (run tr' init) k') :: 16 word)
            = decrypt pt16 (sessionTotals (run tr init) k)
        \<and> (decrypt pt8 (get5 (tagTotals (run tr' init) k') j) :: 8 word)
            = decrypt pt8 (get5 (tagTotals (run tr init) k) j))"
proof -
  have 1: "unat (voteCounts (run tr init) k) = length (folded k tr init)"
    by (rule count_reachable)
  have 2: "unat (decrypt pt16 (sessionTotals (run tr init) k))
       = rating_sum pt16 (folded k tr init) mod 2 ^ 16"
    by (simp add: rating_reachable unat_sum_list comp_def rating_sum_def)
  have 3: "unat (decrypt pt8 (get5 (tagTotals (run tr init) k) j))
        = tag_sum pt8 j (folded k tr init) mod 2 ^ 8"
    by (simp add: tag_reachable unat_sum_list comp_def tag_sum_def)
  have 4: "mset (folded k' tr' init) = mset (folded k tr init) \<longrightarrow>
        voteCounts (run tr' init) k' = voteCounts (run tr init) k
        \<and> (decrypt pt16 (sessionTotals (run tr' init) k') :: 16 word)
            = decrypt pt16 (sessionTotals (run tr init) k)
        \<and> (decrypt pt8 (get5 (tagTotals (run tr' init) k') j) :: 8 word)
            = decrypt pt8 (get5 (tagTotals (run tr init) k) j)"
  proof
    assume m: "mset (folded k' tr' init) = mset (folded k tr init)"
    then have "length (folded k' tr' init) = length (folded k tr init)"
      by (rule mset_eq_length)
    then have "unat (voteCounts (run tr' init) k') = unat (voteCounts (run tr init) k)"
      by (simp add: count_reachable)
    then have "voteCounts (run tr' init) k' = voteCounts (run tr init) k"
      by (simp add: word_unat_eq_iff)
    moreover have "(decrypt pt16 (sessionTotals (run tr' init) k') :: 16 word)
            = decrypt pt16 (sessionTotals (run tr init) k)"
      unfolding rating_reachable using m by (rule sum_list_mset_cong)
    moreover have "(decrypt pt8 (get5 (tagTotals (run tr' init) k') j) :: 8 word)
            = decrypt pt8 (get5 (tagTotals (run tr init) k) j)"
      unfolding tag_reachable using m by (rule sum_list_mset_cong)
    ultimately show "voteCounts (run tr' init) k' = voteCounts (run tr init) k
        \<and> (decrypt pt16 (sessionTotals (run tr' init) k') :: 16 word)
            = decrypt pt16 (sessionTotals (run tr init) k)
        \<and> (decrypt pt8 (get5 (tagTotals (run tr' init) k') j) :: 8 word)
            = decrypt pt8 (get5 (tagTotals (run tr init) k) j)"
      by blast
  qed
  from 1 2 3 4 show ?thesis by blast
qed

text \<open>
  The claim as stated fails: 256 voters each submit a ballot for setup 0 in which every
  tag encrypts 1. All 256 ballots are folded and the counter is 256; the arithmetic sum
  of the first tag is 256, and the 8-bit tag total decrypts to 0. Whatever an 8-bit
  ciphertext does on overflow, it cannot decrypt to 256.
\<close>
theorem tag_total_wraps:
  "length (folded (0, 0) (ex_crowd 256) init) = 256
   \<and> unat (voteCounts (run (ex_crowd 256) init) (0, 0)) = 256
   \<and> tag_sum ex_pt8_ones 0 (folded (0, 0) (ex_crowd 256) init) = 256
   \<and> unat (decrypt ex_pt8_ones (get5 (tagTotals (run (ex_crowd 256) init) (0, 0)) 0)) = 0"
  using ex_crowd_state[of 256]
  by (simp add: ex_crowd_tag_total count_reachable ex_pt8_ones_def sum_list_triv tag_sum_def)

text \<open>
  The same with two ballots, since the contract cannot check the range of an encrypted
  rating: ratings 65535 and 1 add up to 65536, and the total decrypts to 0.
\<close>
theorem rating_total_wraps:
  "folded (0, 0) ex_two init = [(0, Array5 1 2 3 4 5), (6, Array5 7 8 9 10 11)]
   \<and> unat (voteCounts (run ex_two init) (0, 0)) = 2
   \<and> rating_sum ex_pt16_large (folded (0, 0) ex_two init) = 65536
   \<and> unat (decrypt ex_pt16_large (sessionTotals (run ex_two init) (0, 0))) = 0"
  by (simp add: ex_two_folded count_reachable rating_reachable ex_pt16_large_def rating_sum_def)

text \<open>
  The scenario of the spec: ratings 8 and 6 with tags 1,0,1,1,0 and 0,1,1,1,0 give the
  count 2, the rating total 14 and the total 2 of the third tag, in either order of the
  two voters.
\<close>
theorem aggregate_totals_witness:
  "mset (folded (0, 0) ex_two_swapped init) = mset (folded (0, 0) ex_two init)
   \<and> (2 :: nat) < 5
   \<and> unat (voteCounts (run ex_two init) (0, 0)) = 2
   \<and> rating_sum ex_pt16 (folded (0, 0) ex_two init) = 14
   \<and> unat (decrypt ex_pt16 (sessionTotals (run ex_two init) (0, 0))) = 14
   \<and> tag_sum ex_pt8 2 (folded (0, 0) ex_two init) = 2
   \<and> unat (decrypt ex_pt8 (get5 (tagTotals (run ex_two init) (0, 0)) 2)) = 2
   \<and> voteCounts (run ex_two_swapped init) (0, 0) = voteCounts (run ex_two init) (0, 0)
   \<and> decrypt ex_pt16 (sessionTotals (run ex_two_swapped init) (0, 0))
       = decrypt ex_pt16 (sessionTotals (run ex_two init) (0, 0))
   \<and> decrypt ex_pt8 (get5 (tagTotals (run ex_two_swapped init) (0, 0)) 2)
       = decrypt ex_pt8 (get5 (tagTotals (run ex_two init) (0, 0)) 2)"
proof -
  have m: "mset (folded (0, 0) ex_two_swapped init) = mset (folded (0, 0) ex_two init)"
    by (simp add: ex_two_folded)
  show ?thesis
    using m aggregate_totals[of ex_two "(0, 0)" ex_pt16 2 ex_pt8 "(0, 0)" ex_two_swapped]
    by (simp add: ex_two_folded ex_pt16_def ex_pt8_def rating_sum_def tag_sum_def)
qed

subsection \<open>C2: who holds capability on a ballot\<close>

text \<open>
  C2, amended. In every state the contract can reach, capability on a ciphertext handle
  stored in a submitted ballot is held only by the contract itself, by a voter who
  submitted that handle in a ballot, and by the organizer of a session for which
  decryption was requested and in which the handle is an aggregate handle of a setup
  with exactly one vote. The exception is real: the first ballot of a setup is assigned
  to the totals as it is, so for a setup with a single ballot \<open>requestOrganizerDecryption\<close>
  grants the organizer capability on that ballot's own ciphertexts. For a setup with two
  or more votes the totals are sums, which no ballot stores.
\<close>
theorem ballot_capability_holders:
  "submitted (votes (run tr init) (sid, idx, v))
   \<and> h \<in> vote_handles (votes (run tr init) (sid, idx, v))
   \<and> (h, p) \<in> acl (run tr init)
   \<longrightarrow> p = This
      \<or> (\<exists>sid' idx' v'. p = Account v' \<and> submitted (votes (run tr init) (sid', idx', v')) \<and>
            h \<in> vote_handles (votes (run tr init) (sid', idx', v')))
      \<or> (\<exists>sid' idx'. p = Account (organizer (sessions (run tr init) sid')) \<and>
            decryptionRequested (run tr init) sid' \<and>
            voteCounts (run tr init) (sid', idx') = 1 \<and>
            h \<in> agg_handles (run tr init) (sid', idx'))"
  using ballot_handle_holder[OF inv_reachable, of tr sid idx v h p] by blast

text \<open>
  The claim as stated fails: voter 2 casts the only vote for setup 0, the organizer
  (address 1) closes the session and requests decryption. The rating total of setup 0 is
  the handle of voter 2's rating ciphertext, and the request grants the organizer
  capability on it, which the organizer did not have before.
\<close>
theorem organizer_reads_single_ballot:
  "submitted (votes (run ex_voted_requested init) (0, 0, 2))
   \<and> rating (votes (run ex_voted_requested init) (0, 0, 2)) = Input 0
   \<and> organizer (sessions (run ex_voted_requested init) 0) = 1
   \<and> (Input 0, Account 1) \<notin> acl (run ex_voted_closed init)
   \<and> (Input 0, Account 1) \<in> acl (run ex_voted_requested init)"
  using ex_organizer_granted
  by (simp add: ex_voted_requested_fields ex_voted_closed_fields ex_voted_fields
        ex_voted_closed_acl ex_voted_acl)

text \<open>
  In that state the organizer's capability on voter 2's rating handle falls under the
  third case.
\<close>
theorem ballot_capability_holders_witness:
  "submitted (votes (run ex_voted_requested init) (0, 0, 2))
   \<and> Input 0 \<in> vote_handles (votes (run ex_voted_requested init) (0, 0, 2))
   \<and> (Input 0, Account 1) \<in> acl (run ex_voted_requested init)
   \<and> (Account 1 = This
      \<or> (\<exists>sid' idx' v'. Account 1 = Account v' \<and>
            submitted (votes (run ex_voted_requested init) (sid', idx', v')) \<and>
            Input 0 \<in> vote_handles (votes (run ex_voted_requested init) (sid', idx', v')))
      \<or> (\<exists>sid' idx'. Account 1 = Account (organizer (sessions (run ex_voted_requested init) sid')) \<and>
            decryptionRequested (run ex_voted_requested init) sid' \<and>
            voteCounts (run ex_voted_requested init) (sid', idx') = 1 \<and>
            Input 0 \<in> agg_handles (run ex_voted_requested init) (sid', idx')))"
proof -
  have pre: "submitted (votes (run ex_voted_requested init) (0, 0, 2))"
    "Input 0 \<in> vote_handles (votes (run ex_voted_requested init) (0, 0, 2))"
    by (simp_all add: ex_voted_requested_fields ex_voted_fields vote_handles_def)
  show ?thesis
    using pre ex_organizer_granted
      ballot_capability_holders[of ex_voted_requested 0 0 2 "Input 0" "Account 1"]
    by blast
qed

subsection \<open>C3: requestOrganizerDecryption is one-shot\<close>

text \<open>
  C3, amended. \<open>requestOrganizerDecryption\<close> succeeds exactly when the session exists, the
  caller is its organizer, its state is Closed and no grant was recorded. On success the
  storage afterwards is the storage before with the requested flag of this session set
  and with the grants added that the loop makes: for every setup index below the
  session's setup count whose vote count is positive, the organizer and the contract
  itself on the rating total and the five tag totals. Nothing else changes: no other
  grant is added, none is removed, no other session's flag is touched. After one success,
  whatever transactions follow, every further call for the session fails and leaves the
  storage as it is: with \<open>NotOrganizer\<close> for a caller who is not the organizer, with
  \<open>NotClosed\<close> once the session has been revealed, and with \<open>AlreadyRequested\<close>
  otherwise.
\<close>
theorem requestOrganizerDecryption_one_shot:
  "((\<exists>s'. requestOrganizerDecryption e sid s = Inr s') \<longleftrightarrow>
       organizer (sessions s sid) \<noteq> 0 \<and> organizer (sessions s sid) = msg_sender e \<and>
       state (sessions s sid) = Closed \<and> \<not> decryptionRequested s sid)
   \<and> (requestOrganizerDecryption e sid s = Inr s' \<longrightarrow>
        s' = s\<lparr>acl := acl s \<union>
                {(h, p). \<exists>idx. idx < numSetups (sessions s sid) \<and> 0 < voteCounts s (sid, idx) \<and>
                           h \<in> agg_handles s (sid, idx) \<and>
                           (p = Account (organizer (sessions s sid)) \<or> p = This)},
              decryptionRequested := (decryptionRequested s)(sid := True)\<rparr>
        \<and> decryptionRequested s' sid
        \<and> (idx < numSetups (sessions s sid) \<and> 0 < voteCounts s (sid, idx) \<and> h \<in> agg_handles s (sid, idx)
             \<longrightarrow> (h, Account (organizer (sessions s sid))) \<in> acl s')
        \<and> acl s \<subseteq> acl s' \<and> sessionCounter s' = sessionCounter s \<and> sessions s' = sessions s
        \<and> votes s' = votes s \<and> sessionTotals s' = sessionTotals s \<and> tagTotals s' = tagTotals s
        \<and> voteCounts s' = voteCounts s)
   \<and> (requestOrganizerDecryption e sid (run tr init) = Inr s' \<longrightarrow>
        requestOrganizerDecryption e' sid (run tr' s') =
          Inl (if organizer (sessions s' sid) \<noteq> msg_sender e' then NotOrganizer
               else if state (sessions (run tr' s') sid) \<noteq> Closed then NotClosed
               else AlreadyRequested)
        \<and> apply_tx (e', RequestOrganizerDecryption sid) (run tr' s') = run tr' s')"
proof -
  have 1: "(\<exists>s'. requestOrganizerDecryption e sid s = Inr s') \<longleftrightarrow>
       organizer (sessions s sid) \<noteq> 0 \<and> organizer (sessions s sid) = msg_sender e \<and>
       state (sessions s sid) = Closed \<and> \<not> decryptionRequested s sid"
    by (simp add: requestOrganizerDecryption_Inr_iff)
  have 2: "requestOrganizerDecryption e sid s = Inr s' \<longrightarrow>
        s' = s\<lparr>acl := acl s \<union>
                {(h, p). \<exists>idx. idx < numSetups (sessions s sid) \<and> 0 < voteCounts s (sid, idx) \<and>
                           h \<in> agg_handles s (sid, idx) \<and>
                           (p = Account (organizer (sessions s sid)) \<or> p = This)},
              decryptionRequested := (decryptionRequested s)(sid := True)\<rparr>
        \<and> decryptionRequested s' sid
        \<and> (idx < numSetups (sessions s sid) \<and> 0 < voteCounts s (sid, idx) \<and> h \<in> agg_handles s (sid, idx)
             \<longrightarrow> (h, Account (organizer (sessions s sid))) \<in> acl s')
        \<and> acl s \<subseteq> acl s' \<and> sessionCounter s' = sessionCounter s \<and> sessions s' = sessions s
        \<and> votes s' = votes s \<and> sessionTotals s' = sessionTotals s \<and> tagTotals s' = tagTotals s
        \<and> voteCounts s' = voteCounts s"
  proof
    assume a: "requestOrganizerDecryption e sid s = Inr s'"
    have "idx < numSetups (sessions s sid) \<and> 0 < voteCounts s (sid, idx) \<and> h \<in> agg_handles s (sid, idx)
             \<longrightarrow> (h, Account (organizer (sessions s sid))) \<in> acl s'"
      using request_grants[OF a] by blast
    moreover have "decryptionRequested s' sid \<and> acl s \<subseteq> acl s' \<and> sessionCounter s' = sessionCounter s
        \<and> sessions s' = sessions s \<and> votes s' = votes s \<and> sessionTotals s' = sessionTotals s
        \<and> tagTotals s' = tagTotals s \<and> voteCounts s' = voteCounts s"
      using a unfolding requestOrganizerDecryption_Inr_iff by auto
    moreover note request_post_state[OF a]
    ultimately show "s' = s\<lparr>acl := acl s \<union>
                {(h, p). \<exists>idx. idx < numSetups (sessions s sid) \<and> 0 < voteCounts s (sid, idx) \<and>
                           h \<in> agg_handles s (sid, idx) \<and>
                           (p = Account (organizer (sessions s sid)) \<or> p = This)},
              decryptionRequested := (decryptionRequested s)(sid := True)\<rparr>
        \<and> decryptionRequested s' sid
        \<and> (idx < numSetups (sessions s sid) \<and> 0 < voteCounts s (sid, idx) \<and> h \<in> agg_handles s (sid, idx)
             \<longrightarrow> (h, Account (organizer (sessions s sid))) \<in> acl s')
        \<and> acl s \<subseteq> acl s' \<and> sessionCounter s' = sessionCounter s \<and> sessions s' = sessions s
        \<and> votes s' = votes s \<and> sessionTotals s' = sessionTotals s \<and> tagTotals s' = tagTotals s
        \<and> voteCounts s' = voteCounts s"
      by blast
  qed
  have 3: "requestOrganizerDecryption e sid (run tr init) = Inr s' \<longrightarrow>
        requestOrganizerDecryption e' sid (run tr' s') =
          Inl (if organizer (sessions s' sid) \<noteq> msg_sender e' then NotOrganizer
               else if state (sessions (run tr' s') sid) \<noteq> Closed then NotClosed
               else AlreadyRequested)
        \<and> apply_tx (e', RequestOrganizerDecryption sid) (run tr' s') = run tr' s'"
    by (simp add: second_request apply_tx_def)
  from 1 2 3 show ?thesis by blast
qed

text \<open>
  The claim as stated fails: the organizer requests decryption of the closed example
  session, reveals the equipment, and calls again. The second call fails in the modifier
  \<^verbatim>\<open>onlyClosedSession\<close>, with "Session not closed", before the check of the requested
  flag is reached.
\<close>
theorem second_request_after_reveal:
  "requestOrganizerDecryption (tx_env 1 50) 0 (run ex_voted_closed init) = Inr (run ex_voted_requested init)
   \<and> requestOrganizerDecryption (tx_env 1 70) 0 (run (ex_voted_requested @ [ex_reveal]) init)
       = Inl NotClosed
   \<and> requestOrganizerDecryption (tx_env 1 70) 0 (run (ex_voted_requested @ [ex_reveal]) init)
       \<noteq> Inl AlreadyRequested"
proof -
  have "requestOrganizerDecryption (tx_env 1 70) 0 (run (ex_voted_requested @ [ex_reveal]) init)
       = Inl NotClosed"
    by (simp add: requestOrganizerDecryption_def ex_requested_revealed_session tx_env_def)
  then show ?thesis
    using ex_voted_requested_eq by simp
qed

text \<open>
  In the example with one vote on setup 0 the request succeeds and grants the organizer
  the rating total; an unrelated account gets no grant and the flag of session 1 stays
  unset; a second call by the organizer fails with \<open>AlreadyRequested\<close>, one
  by another caller with \<open>NotOrganizer\<close>, and one after the reveal with \<open>NotClosed\<close>.
\<close>
theorem requestOrganizerDecryption_one_shot_witness:
  "requestOrganizerDecryption (tx_env 1 50) 0 (run ex_voted_closed init) = Inr (run ex_voted_requested init)
   \<and> decryptionRequested (run ex_voted_requested init) 0
   \<and> (0 :: uint8) < numSetups (sessions (run ex_voted_closed init) 0)
   \<and> 0 < voteCounts (run ex_voted_closed init) (0, 0)
   \<and> Input 0 \<in> agg_handles (run ex_voted_closed init) (0, 0)
   \<and> (Input 0, Account 1) \<in> acl (run ex_voted_requested init)
   \<and> (Input 0, Account 9) \<notin> acl (run ex_voted_requested init)
   \<and> \<not> decryptionRequested (run ex_voted_requested init) 1
   \<and> requestOrganizerDecryption (tx_env 1 55) 0 (run [] (run ex_voted_requested init)) = Inl AlreadyRequested
   \<and> requestOrganizerDecryption (tx_env 9 55) 0 (run [] (run ex_voted_requested init)) = Inl NotOrganizer
   \<and> requestOrganizerDecryption (tx_env 1 70) 0 (run [ex_reveal] (run ex_voted_requested init)) = Inl NotClosed"
proof -
  have pre: "(0 :: uint8) < numSetups (sessions (run ex_voted_closed init) 0)"
    "0 < voteCounts (run ex_voted_closed init) (0, 0)"
    "Input 0 \<in> agg_handles (run ex_voted_closed init) (0, 0)"
    by (simp_all add: ex_voted_closed_fields ex_voted_fields agg_handles_def)
  have st: "state (sessions (run [] (run ex_voted_requested init)) 0) = Closed"
    "state (sessions (run [ex_reveal] (run ex_voted_requested init)) 0) = Revealed"
    "organizer (sessions (run ex_voted_requested init) 0) = 1"
    "organizer (sessions (run ex_voted_closed init) 0) = 1"
    using ex_requested_revealed_session
    by (simp_all add: run_snoc ex_voted_requested_fields ex_voted_closed_fields)
  have who: "msg_sender (tx_env 1 55) = 1" "msg_sender (tx_env 9 55) = 9" "msg_sender (tx_env 1 70) = 1"
    by (simp_all add: tx_env_def)
  have flag: "decryptionRequested (run ex_voted_requested init) 0"
    and post: "run ex_voted_requested init =
        (run ex_voted_closed init)\<lparr>acl := acl (run ex_voted_closed init) \<union>
                {(h, p). \<exists>idx. idx < numSetups (sessions (run ex_voted_closed init) 0) \<and>
                           0 < voteCounts (run ex_voted_closed init) (0, idx) \<and>
                           h \<in> agg_handles (run ex_voted_closed init) (0, idx) \<and>
                           (p = Account (organizer (sessions (run ex_voted_closed init) 0)) \<or> p = This)},
              decryptionRequested := (decryptionRequested (run ex_voted_closed init))(0 := True)\<rparr>"
    and grant: "(Input 0, Account (organizer (sessions (run ex_voted_closed init) 0)))
                  \<in> acl (run ex_voted_requested init)"
    and again: "requestOrganizerDecryption (tx_env 1 55) 0 (run [] (run ex_voted_requested init)) =
          Inl (if organizer (sessions (run ex_voted_requested init) 0) \<noteq> msg_sender (tx_env 1 55)
               then NotOrganizer
               else if state (sessions (run [] (run ex_voted_requested init)) 0) \<noteq> Closed then NotClosed
               else AlreadyRequested)"
    using ex_voted_requested_eq pre
      requestOrganizerDecryption_one_shot[of "tx_env 1 50" 0 "run ex_voted_closed init"
        "run ex_voted_requested init" 0 "Input 0" ex_voted_closed "tx_env 1 55" "[]"]
    by blast+
  have other: "requestOrganizerDecryption (tx_env 9 55) 0 (run [] (run ex_voted_requested init)) =
          Inl (if organizer (sessions (run ex_voted_requested init) 0) \<noteq> msg_sender (tx_env 9 55)
               then NotOrganizer
               else if state (sessions (run [] (run ex_voted_requested init)) 0) \<noteq> Closed then NotClosed
               else AlreadyRequested)"
    using ex_voted_requested_eq
      requestOrganizerDecryption_one_shot[of "tx_env 1 50" 0 "run ex_voted_closed init"
        "run ex_voted_requested init" 0 "Input 0" ex_voted_closed "tx_env 9 55" "[]"]
    by blast
  have revealed: "requestOrganizerDecryption (tx_env 1 70) 0 (run [ex_reveal] (run ex_voted_requested init)) =
          Inl (if organizer (sessions (run ex_voted_requested init) 0) \<noteq> msg_sender (tx_env 1 70)
               then NotOrganizer
               else if state (sessions (run [ex_reveal] (run ex_voted_requested init)) 0) \<noteq> Closed
               then NotClosed
               else AlreadyRequested)"
    using ex_voted_requested_eq
      requestOrganizerDecryption_one_shot[of "tx_env 1 50" 0 "run ex_voted_closed init"
        "run ex_voted_requested init" 0 "Input 0" ex_voted_closed "tx_env 1 70" "[ex_reveal]"]
    by blast
  have "requestOrganizerDecryption (tx_env 1 55) 0 (run [] (run ex_voted_requested init)) = Inl AlreadyRequested"
    "requestOrganizerDecryption (tx_env 9 55) 0 (run [] (run ex_voted_requested init)) = Inl NotOrganizer"
    "requestOrganizerDecryption (tx_env 1 70) 0 (run [ex_reveal] (run ex_voted_requested init)) = Inl NotClosed"
    "(Input 0, Account 1) \<in> acl (run ex_voted_requested init)"
    using grant by (simp_all only: again other revealed st who) simp_all
  moreover have "(Input 0, Account 9) \<notin> acl (run ex_voted_requested init)"
    by (subst post) (auto simp add: st(4) ex_voted_closed_acl ex_voted_acl)
  moreover have "\<not> decryptionRequested (run ex_voted_requested init) 1"
    by (subst post) (simp add: ex_voted_closed_fields)
  ultimately show ?thesis
    using ex_voted_requested_eq flag pre by blast
qed

subsection \<open>C4: one ballot per voter and setup\<close>

text \<open>
  C4, amended. For every session, setup and voter at most one \<open>submitVote\<close> succeeds:
  after one has, whatever transactions follow, every further attempt by the same voter
  for the same session and setup, with any payload, fails and leaves the storage as it
  is, so the first ballot's rating and tag ciphertexts, its submitted flag and the
  setup's vote counter stay as they are. The failure is \<open>DuplicateVote\<close> as long as the
  session is Active and the deadline has not passed; the checks on the session come
  first, so it is \<open>SessionNotActive\<close> once the session is closed and \<open>DeadlinePassed\<close>
  after the deadline.
\<close>
theorem second_vote_rejected:
  "submitVote e sid idx r tg p (run tr init) = Inr s' \<and> msg_sender e' = msg_sender e
   \<longrightarrow> submitVote e' sid idx r' tg' p' (run tr' s') =
          Inl (if state (sessions (run tr' s') sid) \<noteq> Active then SessionNotActive
               else if deadline (sessions s' sid) < block_timestamp e' then DeadlinePassed
               else DuplicateVote)
       \<and> apply_tx (e', SubmitVote sid idx r' tg' p') (run tr' s') = run tr' s'
       \<and> votes (run tr' s') (sid, idx, msg_sender e) =
          \<lparr>rating = Input r, tags = map5 Input tg, submitted = True\<rparr>"
proof
  assume a: "submitVote e sid idx r tg p (run tr init) = Inr s' \<and> msg_sender e' = msg_sender e"
  then have a1: "submitVote e sid idx r tg p (run tr init) = Inr s'"
    and a2: "msg_sender e' = msg_sender e"
    by simp_all
  have 1: "submitVote e' sid idx r' tg' p' (run tr' s') =
          Inl (if state (sessions (run tr' s') sid) \<noteq> Active then SessionNotActive
               else if deadline (sessions s' sid) < block_timestamp e' then DeadlinePassed
               else DuplicateVote)"
    by (rule second_submit(1)[OF a1 a2])
  then have 2: "apply_tx (e', SubmitVote sid idx r' tg' p') (run tr' s') = run tr' s'"
    by (simp add: apply_tx_def)
  have 3: "votes (run tr' s') (sid, idx, msg_sender e) =
          \<lparr>rating = Input r, tags = map5 Input tg, submitted = True\<rparr>"
    by (rule second_submit(2)[OF a1 a2])
  from 1 2 3 show "submitVote e' sid idx r' tg' p' (run tr' s') =
          Inl (if state (sessions (run tr' s') sid) \<noteq> Active then SessionNotActive
               else if deadline (sessions s' sid) < block_timestamp e' then DeadlinePassed
               else DuplicateVote)
       \<and> apply_tx (e', SubmitVote sid idx r' tg' p') (run tr' s') = run tr' s'
       \<and> votes (run tr' s') (sid, idx, msg_sender e) =
          \<lparr>rating = Input r, tags = map5 Input tg, submitted = True\<rparr>"
    by blast
qed

text \<open>
  The claim as stated fails: voter 2 votes for setup 0, the organizer closes the session,
  and voter 2 submits again. The second attempt fails in the modifier
  \<^verbatim>\<open>onlyActiveSession\<close>, with "Session not active", before the duplicate check is
  reached.
\<close>
theorem second_vote_after_close:
  "submitVote (tx_env 2 20) 0 0 0 (Array5 1 2 3 4 5) [] (run ex_open init) = Inr (run ex_voted init)
   \<and> submitVote (tx_env 2 45) 0 0 6 (Array5 7 8 9 10 11) [] (run (ex_voted @ [ex_close]) init)
       = Inl SessionNotActive
   \<and> submitVote (tx_env 2 45) 0 0 6 (Array5 7 8 9 10 11) [] (run (ex_voted @ [ex_close]) init)
       \<noteq> Inl DuplicateVote"
proof -
  have "submitVote (tx_env 2 45) 0 0 6 (Array5 7 8 9 10 11) [] (run ex_voted_closed init)
       = Inl SessionNotActive"
    by (simp add: submitVote_def ex_voted_closed_fields)
  then show ?thesis
    using ex_voted_eq by (simp add: ex_voted_closed_def)
qed

text \<open>
  Voter 2's second attempt fails with \<open>DuplicateVote\<close> while the example session is
  open, with \<open>SessionNotActive\<close> after it is closed and with \<open>DeadlinePassed\<close> at time
  1001; the first ballot is still stored.
\<close>
theorem second_vote_rejected_witness:
  "submitVote (tx_env 2 20) 0 0 0 (Array5 1 2 3 4 5) [] (run ex_open init) = Inr (run ex_voted init)
   \<and> msg_sender (tx_env 2 25) = msg_sender (tx_env 2 20)
   \<and> submitVote (tx_env 2 25) 0 0 6 (Array5 7 8 9 10 11) [] (run [] (run ex_voted init))
       = Inl DuplicateVote
   \<and> submitVote (tx_env 2 45) 0 0 6 (Array5 7 8 9 10 11) [] (run [ex_close] (run ex_voted init))
       = Inl SessionNotActive
   \<and> submitVote (tx_env 2 1001) 0 0 6 (Array5 7 8 9 10 11) [] (run [] (run ex_voted init))
       = Inl DeadlinePassed
   \<and> votes (run [ex_close] (run ex_voted init)) (0, 0, 2) =
        \<lparr>rating = Input 0, tags = Array5 (Input 1) (Input 2) (Input 3) (Input 4) (Input 5),
         submitted = True\<rparr>"
proof -
  have st: "state (sessions (run [] (run ex_voted init)) 0) = Active"
    "state (sessions (run [ex_close] (run ex_voted init)) 0) = Closed"
    "deadline (sessions (run ex_voted init) 0) = 1000"
    using ex_voted_closed_fields(1)
    by (simp_all add: ex_voted_closed_def run_snoc ex_voted_fields ex_open_session)
  have e: "msg_sender (tx_env 2 25) = msg_sender (tx_env 2 20)"
    "msg_sender (tx_env 2 45) = msg_sender (tx_env 2 20)"
    "msg_sender (tx_env 2 1001) = msg_sender (tx_env 2 20)"
    by (simp_all add: tx_env_def)
  show ?thesis
    using ex_voted_eq st e
      second_vote_rejected[of "tx_env 2 20" 0 0 0 "Array5 1 2 3 4 5" "[]" ex_open "run ex_voted init"
        "tx_env 2 25" 6 "Array5 7 8 9 10 11" "[]" "[]"]
      second_vote_rejected[of "tx_env 2 20" 0 0 0 "Array5 1 2 3 4 5" "[]" ex_open "run ex_voted init"
        "tx_env 2 45" 6 "Array5 7 8 9 10 11" "[]" "[ex_close]"]
      second_vote_rejected[of "tx_env 2 20" 0 0 0 "Array5 1 2 3 4 5" "[]" ex_open "run ex_voted init"
        "tx_env 2 1001" 6 "Array5 7 8 9 10 11" "[]" "[]"]
    by (simp add: tx_env_def)
qed

subsection \<open>C5: the session state moves forward\<close>

text \<open>
  C5. A session's state only moves forward. From every state the contract can reach, one
  transaction leaves the state of a session as it is or moves it one step along
  Draft (no session yet) \<rightarrow> Active \<rightarrow> Closed \<rightarrow> Revealed, so over any further
  transactions the state never returns to an earlier one, and never to Draft.
  \<open>closeSession\<close> succeeds only from Active and \<open>revealEquipment\<close> only from Closed; in
  every other state they fail.
\<close>
theorem session_state_moves_forward:
  "(state (sessions (apply_tx t (run tr init)) sid) = state (sessions (run tr init) sid)
    \<or> state (sessions (run tr init) sid) = Draft \<and> state (sessions (apply_tx t (run tr init)) sid) = Active
    \<or> state (sessions (run tr init) sid) = Active \<and> state (sessions (apply_tx t (run tr init)) sid) = Closed
    \<or> state (sessions (run tr init) sid) = Closed \<and> state (sessions (apply_tx t (run tr init)) sid) = Revealed)
   \<and> rank (state (sessions (run tr init) sid)) \<le> rank (state (sessions (run tr' (run tr init)) sid))
   \<and> (closeSession e sid s = Inr s' \<longrightarrow> state (sessions s sid) = Active \<and> state (sessions s' sid) = Closed)
   \<and> (revealEquipment e sid s = Inr s' \<longrightarrow> state (sessions s sid) = Closed \<and> state (sessions s' sid) = Revealed)
   \<and> (state (sessions s sid) \<noteq> Active \<longrightarrow> (\<exists>err. closeSession e sid s = Inl err))
   \<and> (state (sessions s sid) \<noteq> Closed \<longrightarrow> (\<exists>err. revealEquipment e sid s = Inl err))"
proof -
  have i: "inv (run tr init)" by (rule inv_reachable)
  then have "inv_fresh (run tr init)" by (simp add: inv_def)
  then have 1: "state (sessions (apply_tx t (run tr init)) sid) = state (sessions (run tr init) sid)
    \<or> state (sessions (run tr init) sid) = Draft \<and> state (sessions (apply_tx t (run tr init)) sid) = Active
    \<or> state (sessions (run tr init) sid) = Active \<and> state (sessions (apply_tx t (run tr init)) sid) = Closed
    \<or> state (sessions (run tr init) sid) = Closed \<and> state (sessions (apply_tx t (run tr init)) sid) = Revealed"
    by (rule step_state_forward)
  have 2: "rank (state (sessions (run tr init) sid)) \<le> rank (state (sessions (run tr' (run tr init)) sid))"
    using i by (rule run_rank)
  have 3: "closeSession e sid s = Inr s' \<longrightarrow> state (sessions s sid) = Active \<and> state (sessions s' sid) = Closed"
    by (auto simp add: closeSession_def split: if_splits)
  have 4: "revealEquipment e sid s = Inr s' \<longrightarrow> state (sessions s sid) = Closed \<and> state (sessions s' sid) = Revealed"
    by (auto simp add: revealEquipment_def split: if_splits)
  have 5: "state (sessions s sid) \<noteq> Active \<longrightarrow> (\<exists>err. closeSession e sid s = Inl err)"
    by (simp add: closeSession_def)
  have 6: "state (sessions s sid) \<noteq> Closed \<longrightarrow> (\<exists>err. revealEquipment e sid s = Inl err)"
    by (simp add: revealEquipment_def)
  from 1 2 3 4 5 6 show ?thesis by blast
qed

text \<open>
  The example session is closed from Active and revealed from Closed; closing it again,
  and revealing it while Active, fail.
\<close>
theorem session_state_moves_forward_witness:
  "closeSession (tx_env 1 40) 0 (run ex_open init) = Inr (run ex_closed init)
   \<and> state (sessions (run ex_open init) 0) = Active
   \<and> state (sessions (run ex_closed init) 0) = Closed
   \<and> revealEquipment (tx_env 1 60) 0 (run ex_closed init) = Inr (run ex_revealed init)
   \<and> state (sessions (run ex_revealed init) 0) = Revealed
   \<and> (\<exists>err. closeSession (tx_env 1 70) 0 (run ex_closed init) = Inl err)
   \<and> (\<exists>err. revealEquipment (tx_env 1 70) 0 (run ex_open init) = Inl err)"
  using ex_close_ok ex_reveal_ok
    session_state_moves_forward[of ex_close ex_open 0 "[]" "tx_env 1 40" "run ex_open init" "run ex_closed init"]
    session_state_moves_forward[of ex_close ex_open 0 "[]" "tx_env 1 60" "run ex_closed init" "run ex_revealed init"]
    session_state_moves_forward[of ex_close ex_open 0 "[]" "tx_env 1 70" "run ex_closed init"]
    session_state_moves_forward[of ex_close ex_open 0 "[]" "tx_env 1 70" "run ex_open init"]
  by (simp add: ex_open_session ex_closed_session ex_revealed_session)

subsection \<open>C6: the deadline gates submission, not closure\<close>



subsection \<open>C7: createSession\<close>

text \<open>
  C7. \<open>createSession\<close> succeeds only if the deadline is strictly later than the current
  time, the number of setups is between 2 and 10 and the names array has that length; and
  it does succeed under these conditions in every state reached from deployment by fewer
  than \<open>2 ^ 256 - 1\<close> transactions (the checked increment of the 256-bit session counter
  cannot overflow before). On success the id is the counter's value, no session existed
  under it, the new session is Active and its organizer is the caller, and the counter
  moves to the next value, so that every later successful creation returns a larger id.
\<close>
theorem createSession_succeeds_iff:
  "(createSession e ttl descr dl n names tracks s = Inr (sid, s')
      \<longrightarrow> block_timestamp e < dl \<and> 2 \<le> n \<and> n \<le> 10 \<and> length names = unat n)
   \<and> (block_timestamp e < dl \<and> 2 \<le> n \<and> n \<le> 10 \<and> length names = unat n \<and> length tr < 2 ^ 256 - 1
      \<longrightarrow> (\<exists>sid s'. createSession e ttl descr dl n names tracks (run tr init) = Inr (sid, s')))
   \<and> (createSession e ttl descr dl n names tracks (run tr init) = Inr (sid, s')
      \<longrightarrow> sid = sessionCounter (run tr init) \<and> sessions (run tr init) sid = default_session
          \<and> state (sessions s' sid) = Active \<and> organizer (sessions s' sid) = msg_sender e
          \<and> sessionCounter s' = sid + 1 \<and> sid < sessionCounter s')
   \<and> (createSession e ttl descr dl n names tracks s = Inr (sid, s')
      \<and> createSession e2 ttl2 descr2 dl2 n2 names2 tracks2 (run tr2 s') = Inr (sid2, s2)
      \<longrightarrow> sid < sid2)"
proof -
  have 1: "createSession e ttl descr dl n names tracks s = Inr (sid, s')
      \<longrightarrow> block_timestamp e < dl \<and> 2 \<le> n \<and> n \<le> 10 \<and> length names = unat n"
    by (simp add: createSession_Inr_iff)
  have 2: "block_timestamp e < dl \<and> 2 \<le> n \<and> n \<le> 10 \<and> length names = unat n \<and> length tr < 2 ^ 256 - 1
      \<longrightarrow> (\<exists>sid s'. createSession e ttl descr dl n names tracks (run tr init) = Inr (sid, s'))"
    by (simp add: createSession_Inr_iff counter_not_max)
  have "inv_fresh (run tr init)"
    using inv_reachable[of tr] by (simp add: inv_def)
  then have "sessions (run tr init) (sessionCounter (run tr init)) = default_session"
    by (simp add: inv_fresh_def)
  then have 3: "createSession e ttl descr dl n names tracks (run tr init) = Inr (sid, s')
      \<longrightarrow> sid = sessionCounter (run tr init) \<and> sessions (run tr init) sid = default_session
          \<and> state (sessions s' sid) = Active \<and> organizer (sessions s' sid) = msg_sender e
          \<and> sessionCounter s' = sid + 1 \<and> sid < sessionCounter s'"
    by (auto simp add: createSession_Inr_iff word_less_succ_strict)
  have 4: "createSession e ttl descr dl n names tracks s = Inr (sid, s')
      \<and> createSession e2 ttl2 descr2 dl2 n2 names2 tracks2 (run tr2 s') = Inr (sid2, s2)
      \<longrightarrow> sid < sid2"
  proof
    assume a: "createSession e ttl descr dl n names tracks s = Inr (sid, s')
      \<and> createSession e2 ttl2 descr2 dl2 n2 names2 tracks2 (run tr2 s') = Inr (sid2, s2)"
    then have "sid < sessionCounter s'"
      by (auto simp add: createSession_Inr_iff word_less_succ_strict)
    also have "sessionCounter s' \<le> sessionCounter (run tr2 s')"
      using later_run[of s' tr2] by (simp add: later_def)
    also have "\<dots> = sid2"
      using a by (simp add: createSession_Inr_iff)
    finally show "sid < sid2" .
  qed
  from 1 2 3 4 show ?thesis by blast
qed

text \<open>
  On the freshly deployed contract the first session gets id 0 and a second one id 1.
\<close>
theorem createSession_succeeds_iff_witness:
  "createSession (tx_env 1 10) ''Blind test'' ''Two setups'' 1000 2 [''A'', ''B''] '''' (run [] init)
     = Inr (0, run ex_open init)
   \<and> block_timestamp (tx_env 1 10) < 1000 \<and> (2 :: uint8) \<le> 2 \<and> (2 :: uint8) \<le> 10
   \<and> length [''A'', ''B''] = unat (2 :: uint8) \<and> length ([] :: (env \<times> call) list) < 2 ^ 256 - 1
   \<and> sessions (run [] init) 0 = default_session
   \<and> state (sessions (run ex_open init) 0) = Active
   \<and> organizer (sessions (run ex_open init) 0) = msg_sender (tx_env 1 10)
   \<and> sessionCounter (run ex_open init) = 0 + 1
   \<and> (\<exists>s2. createSession (tx_env 5 20) ''Second'' '''' 2000 3 [''X'', ''Y'', ''Z''] ''''
              (run [] (run ex_open init)) = Inr (1, s2))
   \<and> (0 :: uint256) < 1"
proof -
  have c1: "createSession (tx_env 1 10) ''Blind test'' ''Two setups'' 1000 2 [''A'', ''B''] '''' (run [] init)
     = Inr (0, run ex_open init)"
    using ex_create_ok by simp
  have pre: "block_timestamp (tx_env 1 10) < 1000 \<and> (2 :: uint8) \<le> 2 \<and> (2 :: uint8) \<le> 10
   \<and> length [''A'', ''B''] = unat (2 :: uint8) \<and> length ([] :: (env \<times> call) list) < 2 ^ 256 - 1"
    by (simp add: tx_env_def)
  have "\<exists>s2. createSession (tx_env 5 20) ''Second'' '''' 2000 3 [''X'', ''Y'', ''Z''] ''''
              (run [] (run ex_open init)) = Inr (1, s2)"
    by (simp add: createSession_Inr_iff ex_open_counter tx_env_def)
  then obtain s2 where c2: "createSession (tx_env 5 20) ''Second'' '''' 2000 3 [''X'', ''Y'', ''Z''] ''''
              (run [] (run ex_open init)) = Inr (1, s2)"
    by blast
  show ?thesis
    using c1 c2 pre
      createSession_succeeds_iff[of "tx_env 1 10" "''Blind test''" "''Two setups''" 1000 2
        "[''A'', ''B'']" "''''" "run [] init" 0 "run ex_open init" "[]"
        "tx_env 5 20" "''Second''" "''''" 2000 3 "[''X'', ''Y'', ''Z'']" "''''" "[]" 1 s2]
    by blast
qed

subsection \<open>C8: equipment names are hidden until revealed\<close>

text \<open>
  C8. After a session has been created (by a caller other than the zero address, which
  sends no transaction), and whatever transactions follow, \<open>getEquipmentNames\<close> fails
  with \<open>NotRevealed\<close> as long as the session's state is not Revealed, and once it is
  Revealed returns the names given to \<open>createSession\<close>, in their order. The view does not
  read \<^verbatim>\<open>msg.sender\<close>, so the answer is the same for every caller.
\<close>
theorem equipment_names_hidden_until_revealed:
  "createSession e ttl descr dl n names tracks s = Inr (sid, s') \<and> msg_sender e \<noteq> 0
   \<longrightarrow> getEquipmentNames sid (run tr s') =
         (if state (sessions (run tr s') sid) = Revealed then Inr names else Inl NotRevealed)"
  by (auto simp add: getEquipmentNames_def created_session_kept)

text \<open>
  The names of the example session are refused while it is Active and returned after
  the organizer has closed it and revealed the equipment.
\<close>
theorem equipment_names_hidden_until_revealed_witness:
  "createSession (tx_env 1 10) ''Blind test'' ''Two setups'' 1000 2 [''A'', ''B''] '''' init
     = Inr (0, run ex_open init)
   \<and> msg_sender (tx_env 1 10) \<noteq> 0
   \<and> getEquipmentNames 0 (run [] (run ex_open init)) = Inl NotRevealed
   \<and> getEquipmentNames 0 (run [ex_close, ex_reveal] (run ex_open init)) = Inr [''A'', ''B'']"
proof -
  have s: "msg_sender (tx_env 1 10) \<noteq> 0"
    by (simp add: tx_env_def)
  have st: "state (sessions (run [] (run ex_open init)) 0) \<noteq> Revealed"
    "state (sessions (run [ex_close, ex_reveal] (run ex_open init)) 0) = Revealed"
    unfolding ex_revealed_run by (simp_all add: ex_revealed_session ex_open_session)
  show ?thesis
    using ex_create_ok s st
      equipment_names_hidden_until_revealed[of "tx_env 1 10" "''Blind test''" "''Two setups''" 1000 2
        "[''A'', ''B'']" "''''" init 0 "run ex_open init" "[]"]
      equipment_names_hidden_until_revealed[of "tx_env 1 10" "''Blind test''" "''Two setups''" 1000 2
        "[''A'', ''B'']" "''''" init 0 "run ex_open init" "[ex_close, ex_reveal]"]
    by simp
qed

subsection \<open>C9: unknown session ids\<close>

text \<open>
  C9. \<open>hasVoted\<close> carries no \<open>sessionExists\<close> modifier: on the freshly deployed
  contract, where no session was created, it returns \<open>False\<close> for session id 7, where
  every other function that takes a session id fails with \<open>SessionNotFound\<close>.
\<close>
theorem hasVoted_skips_sessionExists:
  "hasVoted 7 0 1 init = Inr False
   \<and> getVoteCount 7 0 init = Inl SessionNotFound
   \<and> getUserVote (tx_env 1 10) 7 0 1 init = Inl SessionNotFound
   \<and> getSession 7 init = Inl SessionNotFound
   \<and> getEquipmentNames 7 init = Inl SessionNotFound
   \<and> isOrganizer 7 1 init = Inl SessionNotFound
   \<and> getSessionState 7 init = Inl SessionNotFound
   \<and> isDecryptionRequested 7 init = Inl SessionNotFound
   \<and> getSessionTotal 7 0 init = Inl SessionNotFound
   \<and> getTagTotal 7 0 0 init = Inl SessionNotFound
   \<and> submitVote (tx_env 1 10) 7 0 0 (Array5 1 2 3 4 5) [] init = Inl SessionNotFound
   \<and> closeSession (tx_env 1 10) 7 init = Inl SessionNotFound
   \<and> computeRankings (tx_env 1 10) 7 init = Inl SessionNotFound
   \<and> requestOrganizerDecryption (tx_env 1 10) 7 init = Inl SessionNotFound
   \<and> revealEquipment (tx_env 1 10) 7 init = Inl SessionNotFound"
  by (simp add: hasVoted_def getVoteCount_def getUserVote_def getSession_def getEquipmentNames_def
        isOrganizer_def getSessionState_def isDecryptionRequested_def getSessionTotal_def
        getTagTotal_def submitVote_def closeSession_def computeRankings_def
        requestOrganizerDecryption_def revealEquipment_def init_def default_vote_def
        default_session_def)

subsection \<open>C10: the aggregate queries validate their indices\<close>

text \<open>
  C10. The aggregate-handle queries validate their indices: on an existing session,
  \<open>getSessionTotal\<close> and \<open>getTagTotal\<close> fail when the setup index is not below the
  session's setup count, and \<open>getTagTotal\<close> fails when the tag index is not below 5. With
  valid indices and no ballot folded into the setup, both return the uninitialized
  handle.
\<close>
theorem aggregate_queries_validate_indices:
  "(organizer (sessions (run tr init) sid) \<noteq> 0 \<and> numSetups (sessions (run tr init) sid) \<le> idx
      \<longrightarrow> getSessionTotal sid idx (run tr init) = Inl InvalidSetupIndex
          \<and> getTagTotal sid idx j (run tr init) = Inl InvalidSetupIndex)
   \<and> (organizer (sessions (run tr init) sid) \<noteq> 0 \<and> idx < numSetups (sessions (run tr init) sid) \<and> 5 \<le> j
      \<longrightarrow> getTagTotal sid idx j (run tr init) = Inl InvalidTagIndex)
   \<and> (organizer (sessions (run tr init) sid) \<noteq> 0 \<and> idx < numSetups (sessions (run tr init) sid) \<and>
      folded (sid, idx) tr init = []
      \<longrightarrow> getSessionTotal sid idx (run tr init) = Inr Uninit)
   \<and> (organizer (sessions (run tr init) sid) \<noteq> 0 \<and> idx < numSetups (sessions (run tr init) sid) \<and>
      j < 5 \<and> folded (sid, idx) tr init = []
      \<longrightarrow> getTagTotal sid idx j (run tr init) = Inr Uninit)"
  by (auto simp add: getSessionTotal_def getTagTotal_def no_ballots_Uninit not_less)

text \<open>
  The example session has two setups and no votes: setup index 2 and tag index 5 are
  refused, and setup 1 has uninitialized totals.
\<close>
theorem aggregate_queries_validate_indices_witness:
  "getSessionTotal 0 2 (run ex_open init) = Inl InvalidSetupIndex
   \<and> getTagTotal 0 2 0 (run ex_open init) = Inl InvalidSetupIndex
   \<and> getTagTotal 0 1 5 (run ex_open init) = Inl InvalidTagIndex
   \<and> folded (0, 1) ex_open init = []
   \<and> getSessionTotal 0 1 (run ex_open init) = Inr Uninit
   \<and> getTagTotal 0 1 4 (run ex_open init) = Inr Uninit"
proof -
  have f: "folded (0, 1) ex_open init = []"
    by (simp add: ex_open_def ex_create_def)
  show ?thesis
    using f aggregate_queries_validate_indices[of ex_open 0 2 0]
      aggregate_queries_validate_indices[of ex_open 0 1 5]
      aggregate_queries_validate_indices[of ex_open 0 1 4]
    by (simp add: ex_open_session)
qed

end
